theory Spec2Isabelle
  imports Main "HOL-Library.Word" "HOL-Library.Monad_Syntax"
begin

unbundle bit_operations_syntax

section \<open>Machine types\<close>

text \<open>
  \<^verbatim>\<open>int\<close> and \<^verbatim>\<open>unsigned int\<close> are 32 bits wide on every target of the library.
  \<^verbatim>\<open>long\<close>, \<^verbatim>\<open>unsigned long\<close> and \<^verbatim>\<open>uintptr_t\<close> are \<open>'l word\<close>: 32 bits on the
  ESP32 family, 64 bits on an LP64 host. Signed and unsigned values of one width share
  the word type; \<open>sint\<close> reads a word as two's complement, \<open>unat\<close> as unsigned.
\<close>

type_synonym c_int = "32 word"

definition THORLOG_DEC :: c_int where "THORLOG_DEC = 10"
definition THORLOG_HEX :: c_int where "THORLOG_HEX = 16"
definition THORLOG_BIN :: c_int where "THORLOG_BIN = 2"

definition THORLOG_LEVEL_SILENT :: c_int where "THORLOG_LEVEL_SILENT = 0"
definition THORLOG_LEVEL_FATAL :: c_int where "THORLOG_LEVEL_FATAL = 1"
definition THORLOG_LEVEL_ERROR :: c_int where "THORLOG_LEVEL_ERROR = 2"
definition THORLOG_LEVEL_WARNING :: c_int where "THORLOG_LEVEL_WARNING = 3"
definition THORLOG_LEVEL_INFO :: c_int where "THORLOG_LEVEL_INFO = 4"
definition THORLOG_LEVEL_NOTICE :: c_int where "THORLOG_LEVEL_NOTICE = 4"
definition THORLOG_LEVEL_TRACE :: c_int where "THORLOG_LEVEL_TRACE = 5"
definition THORLOG_LEVEL_VERBOSE :: c_int where "THORLOG_LEVEL_VERBOSE = 6"

definition THORLOG_CR :: string where "THORLOG_CR = [CHR 0x0D]"

text \<open>\<^verbatim>\<open>thorlog_constrain\<close>, instantiated at \<^verbatim>\<open>int\<close>: the comparisons are signed.\<close>

definition thorlog_constrain :: "c_int \<Rightarrow> c_int \<Rightarrow> c_int \<Rightarrow> c_int" where
  "thorlog_constrain val lo hi =
     (if sint val < sint lo then lo else (if sint hi < sint val then hi else val))"

section \<open>The C library's number formatting\<close>

text \<open>
  \<^verbatim>\<open>printf\<close> belongs to the C library, not to the repository. Its conversions are
  modelled after the C standard: \<^verbatim>\<open>%lx\<close> and \<^verbatim>\<open>%lu\<close> write the digits of the
  unsigned value, most significant first, without padding, a single \<open>0\<close> for zero;
  \<^verbatim>\<open>%lx\<close> uses the lowercase letters; \<^verbatim>\<open>%ld\<close> writes a minus sign before the
  magnitude of a negative value; \<^verbatim>\<open>%s\<close> stops at the first NUL byte.
\<close>

definition digit_char :: "nat \<Rightarrow> char" where
  "digit_char d = ''0123456789abcdef'' ! d"

function digits :: "nat \<Rightarrow> nat \<Rightarrow> string" where
  "digits b n =
     (if n < b \<or> b < 2 then [digit_char n] else digits b (n div b) @ [digit_char (n mod b)])"
  by pat_completeness auto
termination
  by (relation "measure (\<lambda>(b, n). n)") auto

definition fmt_c :: "char \<Rightarrow> string" where
  "fmt_c c = [c]"

definition fmt_s :: "string \<Rightarrow> string" where
  "fmt_s str = takeWhile (\<lambda>c. c \<noteq> CHR 0x00) str"

definition fmt_lx :: "'l::len word \<Rightarrow> string" where
  "fmt_lx num = digits 16 (unat num)"

definition fmt_lu :: "'l::len word \<Rightarrow> string" where
  "fmt_lu num = digits 10 (unat num)"

definition fmt_ld :: "'l::len word \<Rightarrow> string" where
  "fmt_ld num =
     (if sint num < 0 then CHR ''-'' # digits 10 (nat (- sint num))
      else digits 10 (nat (sint num)))"

text \<open>
  Floating point is outside the model: a \<^verbatim>\<open>double\<close> is kept as the text that
  \<^verbatim>\<open>printf("%.2f")\<close> renders it to.
\<close>

datatype double = Double string

fun fmt_2f :: "double \<Rightarrow> string" where
  "fmt_2f (Double txt) = txt"

section \<open>Program state\<close>

text \<open>
  The model is the default build, with \<^verbatim>\<open>THORLOG_DISABLE_LOGGING\<close> not defined.

  One record holds the five fields of a \<^verbatim>\<open>ThorLogging\<close> object (\<open>m_level\<close> for
  \<^verbatim>\<open>_level\<close>, and so on) together with what a call can affect outside the object:
  the bytes written to the standard output so far, and the environment of the hooks.
  Every method is a function from state to state; a method that can fault returns an
  \<open>option\<close>, \<open>None\<close> for the fault.

  The only \<^verbatim>\<open>ThorPrint\<close> implementation of the repository is \<^verbatim>\<open>EspIdfPrint\<close>; the
  object has no fields and carries the platform's \<^verbatim>\<open>long\<close> width in its type.
  A \<^verbatim>\<open>ThorPrint*\<close> is \<open>None\<close> for \<^verbatim>\<open>nullptr\<close>. \<^verbatim>\<open>printf\<close> is taken to succeed.

  A \<^verbatim>\<open>printfunction\<close> is a pointer to user code, and user code has the logger in
  scope: a hook can call \<^verbatim>\<open>setLevel\<close>, \<^verbatim>\<open>setShowLevel\<close>, \<^verbatim>\<open>begin\<close> or \<^verbatim>\<open>setSuffix\<close>
  on the very object that is calling it. The pointer is modelled by the address of
  the code, a number, and the fields \<^verbatim>\<open>_prefix\<close> and \<^verbatim>\<open>_suffix\<close> hold such an address
  or \<open>None\<close> for \<^verbatim>\<open>nullptr\<close>. The code behind the addresses is a table, which the
  logging methods take as their first parameter: a hook is given the sink pointer
  and the level, runs on the whole state, of which it may change every field and
  its own environment \<open>'e\<close> (a clock, a counter), and returns the text it sends to the
  output. It cannot take output back, and it is taken to return.
\<close>

datatype 'l ThorPrint = EspIdfPrint

type_synonym printfunction = nat

record ('l, 'e) state =
  m_level :: c_int
  m_showLevel :: bool
  m_logOutput :: "'l ThorPrint option"
  m_prefix :: "printfunction option"
  m_suffix :: "printfunction option"
  stdout :: string
  env :: 'e

type_synonym ('l, 'e) hook_table =
  "printfunction \<Rightarrow> 'l ThorPrint option \<Rightarrow> c_int \<Rightarrow> ('l, 'e) state \<Rightarrow> string \<times> ('l, 'e) state"

text \<open>The five fields of the object, to compare them before and after a call.\<close>

definition logger_fields ::
  "('l, 'e) state \<Rightarrow> c_int \<times> bool \<times> 'l ThorPrint option \<times> printfunction option \<times> printfunction option" where
  "logger_fields s = (m_level s, m_showLevel s, m_logOutput s, m_prefix s, m_suffix s)"

text \<open>The default constructor, in a process that has written nothing yet.\<close>

definition ThorLogging :: "'e \<Rightarrow> ('l, 'e) state" where
  "ThorLogging e =
     \<lparr>m_level = THORLOG_LEVEL_SILENT, m_showLevel = True, m_logOutput = None,
      m_prefix = None, m_suffix = None, stdout = [], env = e\<rparr>"

definition printf :: "string \<Rightarrow> ('l, 'e) state \<Rightarrow> ('l, 'e) state" where
  "printf txt s = s\<lparr>stdout := stdout s @ txt\<rparr>"

section \<open>EspIdfPrint\<close>

text \<open>
  The overloads of \<^verbatim>\<open>print\<close> are named after their argument type. The byte counts
  they return are dropped: the logger ignores every one of them.
\<close>

definition print_char :: "'l::len ThorPrint \<Rightarrow> char \<Rightarrow> ('l, 'e) state \<Rightarrow> ('l, 'e) state" where
  "print_char this c s = printf (fmt_c c) s"

definition print_str :: "'l::len ThorPrint \<Rightarrow> string option \<Rightarrow> ('l, 'e) state \<Rightarrow> ('l, 'e) state" where
  "print_str this str s = (case str of None \<Rightarrow> s | Some cs \<Rightarrow> printf (fmt_s cs) s)"

text \<open>
  The loop of \<^verbatim>\<open>printBinary\<close>: \<open>pos\<close> is the write position in the 65-byte buffer
  and \<open>buf\<close> the string that starts at \<^verbatim>\<open>&buffer[pos]\<close>.
\<close>

fun printBinary_loop :: "nat \<Rightarrow> 'l::len word \<Rightarrow> string \<Rightarrow> string" where
  "printBinary_loop 0 num buf = buf"
| "printBinary_loop (Suc pos) num buf =
     (if 0 < num
      then printBinary_loop pos (drop_bit 1 num)
             ((if num AND 1 \<noteq> 0 then CHR ''1'' else CHR ''0'') # buf)
      else buf)"

definition printBinary :: "'l::len ThorPrint \<Rightarrow> 'l word \<Rightarrow> ('l, 'e) state \<Rightarrow> ('l, 'e) state" where
  "printBinary this num s =
     (if num = 0 then print_char this (CHR ''0'') s
      else print_str this (Some (printBinary_loop 64 num [])) s)"

definition printSignedLong :: "'l::len ThorPrint \<Rightarrow> 'l word \<Rightarrow> c_int \<Rightarrow> ('l, 'e) state \<Rightarrow> ('l, 'e) state" where
  "printSignedLong this num base s =
     (if base = THORLOG_DEC then printf (fmt_ld num) s
      else if base = THORLOG_HEX then
        (if sint num < 0 then printf (fmt_lx num) s else printf (fmt_lx num) s)
      else if base = THORLOG_BIN then printBinary this num s
      else printf (fmt_ld num) s)"

definition printUnsignedLong :: "'l::len ThorPrint \<Rightarrow> 'l word \<Rightarrow> c_int \<Rightarrow> ('l, 'e) state \<Rightarrow> ('l, 'e) state" where
  "printUnsignedLong this num base s =
     (if base = THORLOG_DEC then printf (fmt_lu num) s
      else if base = THORLOG_HEX then printf (fmt_lx num) s
      else if base = THORLOG_BIN then printBinary this num s
      else printf (fmt_lu num) s)"

definition print_int :: "'l::len ThorPrint \<Rightarrow> c_int \<Rightarrow> c_int \<Rightarrow> ('l, 'e) state \<Rightarrow> ('l, 'e) state" where
  "print_int this num base s = printSignedLong this (scast num) base s"

definition print_long :: "'l::len ThorPrint \<Rightarrow> 'l word \<Rightarrow> c_int \<Rightarrow> ('l, 'e) state \<Rightarrow> ('l, 'e) state" where
  "print_long this num base s = printSignedLong this num base s"

definition print_uint :: "'l::len ThorPrint \<Rightarrow> c_int \<Rightarrow> c_int \<Rightarrow> ('l, 'e) state \<Rightarrow> ('l, 'e) state" where
  "print_uint this num base s = printUnsignedLong this (ucast num) base s"

definition print_ulong :: "'l::len ThorPrint \<Rightarrow> 'l word \<Rightarrow> c_int \<Rightarrow> ('l, 'e) state \<Rightarrow> ('l, 'e) state" where
  "print_ulong this num base s = printUnsignedLong this num base s"

definition print_double :: "'l::len ThorPrint \<Rightarrow> double \<Rightarrow> ('l, 'e) state \<Rightarrow> ('l, 'e) state" where
  "print_double this num s = printf (fmt_2f num) s"

section \<open>ThorLogging: configuration\<close>

definition ThorLogging_begin :: "c_int \<Rightarrow> 'l ThorPrint option \<Rightarrow> bool \<Rightarrow> ('l, 'e) state \<Rightarrow> ('l, 'e) state" where
  "ThorLogging_begin level output showLevel s =
     s\<lparr>m_level := thorlog_constrain level THORLOG_LEVEL_SILENT THORLOG_LEVEL_VERBOSE,
       m_showLevel := showLevel,
       m_logOutput := output\<rparr>"

definition setLevel :: "c_int \<Rightarrow> ('l, 'e) state \<Rightarrow> ('l, 'e) state" where
  "setLevel level s =
     s\<lparr>m_level := thorlog_constrain level THORLOG_LEVEL_SILENT THORLOG_LEVEL_VERBOSE\<rparr>"

definition getLevel :: "('l, 'e) state \<Rightarrow> c_int" where
  "getLevel s = m_level s"

definition setShowLevel :: "bool \<Rightarrow> ('l, 'e) state \<Rightarrow> ('l, 'e) state" where
  "setShowLevel showLevel s = s\<lparr>m_showLevel := showLevel\<rparr>"


definition setPrefix :: "printfunction \<Rightarrow> ('l, 'e) state \<Rightarrow> ('l, 'e) state" where
  "setPrefix f s = s\<lparr>m_prefix := Some f\<rparr>"

definition clearPrefix :: "('l, 'e) state \<Rightarrow> ('l, 'e) state" where
  "clearPrefix s = s\<lparr>m_prefix := None\<rparr>"

definition setSuffix :: "printfunction \<Rightarrow> ('l, 'e) state \<Rightarrow> ('l, 'e) state" where
  "setSuffix f s = s\<lparr>m_suffix := Some f\<rparr>"

definition clearSuffix :: "('l, 'e) state \<Rightarrow> ('l, 'e) state" where
  "clearSuffix s = s\<lparr>m_suffix := None\<rparr>"

section \<open>ThorLogging: the variadic arguments\<close>

text \<open>
  A \<^verbatim>\<open>va_list\<close> is the list of the arguments not yet read, after the default
  promotions. Every integer and every plain address occupies one slot of the width of
  \<^verbatim>\<open>long\<close>: \<^verbatim>\<open>va_arg\<close> at \<^verbatim>\<open>int\<close> or \<^verbatim>\<open>unsigned int\<close> reads the low 32 bits
  of the slot, at \<^verbatim>\<open>long\<close>, \<^verbatim>\<open>unsigned long\<close> or \<^verbatim>\<open>void*\<close> the whole slot.
  A \<^verbatim>\<open>const char*\<close> argument is kept as the string it points to (\<open>None\<close> for
  \<^verbatim>\<open>nullptr\<close>). Reading past the end of the list, or reading a slot at a type of
  another kind, is undefined behaviour in C: the result is \<open>None\<close>.
\<close>

type_synonym 'l va_item = "'l word + string option + double"

abbreviation VWord :: "'l word \<Rightarrow> 'l va_item" where
  "VWord v \<equiv> Inl v"

abbreviation VStr :: "string option \<Rightarrow> 'l va_item" where
  "VStr p \<equiv> Inr (Inl p)"

abbreviation VDouble :: "double \<Rightarrow> 'l va_item" where
  "VDouble d \<equiv> Inr (Inr d)"

type_synonym 'l va_list = "'l va_item list"

fun va_arg_int :: "'l::len va_list \<Rightarrow> (c_int \<times> 'l va_list) option" where
  "va_arg_int (VWord v # args) = Some (ucast v, args)"
| "va_arg_int _ = None"

fun va_arg_long :: "'l::len va_list \<Rightarrow> ('l word \<times> 'l va_list) option" where
  "va_arg_long (VWord v # args) = Some (v, args)"
| "va_arg_long _ = None"

fun va_arg_str :: "'l::len va_list \<Rightarrow> (string option \<times> 'l va_list) option" where
  "va_arg_str (VStr p # args) = Some (p, args)"
| "va_arg_str _ = None"

fun va_arg_double :: "'l::len va_list \<Rightarrow> (double \<times> 'l va_list) option" where
  "va_arg_double (VDouble d # args) = Some (d, args)"
| "va_arg_double _ = None"

section \<open>ThorLogging: the format interpreter\<close>

text \<open>
  A call through \<^verbatim>\<open>_logOutput->\<close>: dereferencing \<^verbatim>\<open>nullptr\<close> is a fault (\<open>None\<close>).
\<close>

definition logOutput_call ::
  "('l ThorPrint \<Rightarrow> ('l, 'e) state \<Rightarrow> ('l, 'e) state) \<Rightarrow> ('l, 'e) state \<Rightarrow> ('l, 'e) state option" where
  "logOutput_call m s = (case m_logOutput s of None \<Rightarrow> None | Some this \<Rightarrow> Some (m this s))"

text \<open>\<^verbatim>\<open>static_cast<char>(c)\<close> keeps the low byte.\<close>

definition to_char :: "c_int \<Rightarrow> char" where
  "to_char c = char_of (unat c)"

definition printFormat ::
  "char \<Rightarrow> 'l::len va_list \<Rightarrow> ('l, 'e) state \<Rightarrow> ('l va_list \<times> ('l, 'e) state) option" where
  "printFormat format args s =
     (if format = CHR ''%'' then
        do { s1 \<leftarrow> logOutput_call (\<lambda>p. print_char p (CHR ''%'')) s; Some (args, s1) }
      else if format = CHR ''s'' then
        do { (str, args1) \<leftarrow> va_arg_str args;
             s1 \<leftarrow> logOutput_call (\<lambda>p. print_str p str) s; Some (args1, s1) }
      else if format = CHR ''c'' then
        do { (c, args1) \<leftarrow> va_arg_int args;
             s1 \<leftarrow> logOutput_call (\<lambda>p. print_char p (to_char c)) s; Some (args1, s1) }
      else if format = CHR ''C'' then
        do { (c, args1) \<leftarrow> va_arg_int args;
             if 0x20 \<le> sint c \<and> sint c < 0x7F then
               do { s1 \<leftarrow> logOutput_call (\<lambda>p. print_char p (to_char c)) s; Some (args1, s1) }
             else
               do { s1 \<leftarrow> logOutput_call (\<lambda>p. print_str p (Some ''0x'')) s;
                    s2 \<leftarrow> (if sint c < 0x10 then logOutput_call (\<lambda>p. print_char p (CHR ''0'')) s1
                           else Some s1);
                    s3 \<leftarrow> logOutput_call (\<lambda>p. print_uint p c THORLOG_HEX) s2;
                    Some (args1, s3) } }
      else if format = CHR ''d'' \<or> format = CHR ''i'' then
        do { (d, args1) \<leftarrow> va_arg_int args;
             s1 \<leftarrow> logOutput_call (\<lambda>p. print_int p d THORLOG_DEC) s; Some (args1, s1) }
      else if format = CHR ''l'' then
        do { (l, args1) \<leftarrow> va_arg_long args;
             s1 \<leftarrow> logOutput_call (\<lambda>p. print_long p l THORLOG_DEC) s; Some (args1, s1) }
      else if format = CHR ''u'' then
        do { (u, args1) \<leftarrow> va_arg_long args;
             s1 \<leftarrow> logOutput_call (\<lambda>p. print_ulong p u THORLOG_DEC) s; Some (args1, s1) }
      else if format = CHR ''x'' then
        do { (x, args1) \<leftarrow> va_arg_int args;
             s1 \<leftarrow> logOutput_call (\<lambda>p. print_uint p x THORLOG_HEX) s; Some (args1, s1) }
      else if format = CHR ''X'' then
        do { (x, args1) \<leftarrow> va_arg_long args;
             s0 \<leftarrow> logOutput_call (\<lambda>p. print_str p (Some ''0x'')) s;
             s1 \<leftarrow> (if x < 0x10000000 then logOutput_call (\<lambda>p. print_char p (CHR ''0'')) s0 else Some s0);
             s2 \<leftarrow> (if x < 0x1000000 then logOutput_call (\<lambda>p. print_char p (CHR ''0'')) s1 else Some s1);
             s3 \<leftarrow> (if x < 0x100000 then logOutput_call (\<lambda>p. print_char p (CHR ''0'')) s2 else Some s2);
             s4 \<leftarrow> (if x < 0x10000 then logOutput_call (\<lambda>p. print_char p (CHR ''0'')) s3 else Some s3);
             s5 \<leftarrow> (if x < 0x1000 then logOutput_call (\<lambda>p. print_char p (CHR ''0'')) s4 else Some s4);
             s6 \<leftarrow> (if x < 0x100 then logOutput_call (\<lambda>p. print_char p (CHR ''0'')) s5 else Some s5);
             s7 \<leftarrow> (if x < 0x10 then logOutput_call (\<lambda>p. print_char p (CHR ''0'')) s6 else Some s6);
             s8 \<leftarrow> logOutput_call (\<lambda>p. print_ulong p x THORLOG_HEX) s7;
             Some (args1, s8) }
      else if format = CHR ''b'' then
        do { (b, args1) \<leftarrow> va_arg_int args;
             s1 \<leftarrow> logOutput_call (\<lambda>p. print_uint p b THORLOG_BIN) s; Some (args1, s1) }
      else if format = CHR ''B'' then
        do { (b, args1) \<leftarrow> va_arg_int args;
             s1 \<leftarrow> logOutput_call (\<lambda>p. print_str p (Some ''0b'')) s;
             s2 \<leftarrow> logOutput_call (\<lambda>p. print_uint p b THORLOG_BIN) s1; Some (args1, s2) }
      else if format = CHR ''t'' then
        do { (t, args1) \<leftarrow> va_arg_int args;
             s1 \<leftarrow> logOutput_call (\<lambda>p. print_str p (Some (if t \<noteq> 0 then ''t'' else ''f''))) s;
             Some (args1, s1) }
      else if format = CHR ''T'' then
        do { (t, args1) \<leftarrow> va_arg_int args;
             s1 \<leftarrow> logOutput_call (\<lambda>p. print_str p (Some (if t \<noteq> 0 then ''true'' else ''false''))) s;
             Some (args1, s1) }
      else if format = CHR ''D'' \<or> format = CHR ''F'' then
        do { (d, args1) \<leftarrow> va_arg_double args;
             s1 \<leftarrow> logOutput_call (\<lambda>p. print_double p d) s; Some (args1, s1) }
      else if format = CHR ''p'' then
        do { (addr, args1) \<leftarrow> va_arg_long args;
             s1 \<leftarrow> logOutput_call (\<lambda>p. print_str p (Some ''0x'')) s;
             s2 \<leftarrow> logOutput_call (\<lambda>p. print_ulong p addr THORLOG_HEX) s1; Some (args1, s2) }
      else Some (args, s))"

text \<open>
  The scan of \<^verbatim>\<open>print\<close>. The format is the bytes from the pointer on; the scan ends
  at a NUL byte, and the end of the list stands for the terminating NUL. The arguments
  left over are returned with the state, so that what a directive consumed can be told.
\<close>

fun print :: "string \<Rightarrow> 'l::len va_list \<Rightarrow> ('l, 'e) state \<Rightarrow> ('l va_list \<times> ('l, 'e) state) option" where
  "print [] args s = Some (args, s)"
| "print (c # format) args s =
     (if c = CHR 0x00 then Some (args, s)
      else if c = CHR ''%'' then
        (case format of
           [] \<Rightarrow> Some (args, s)
         | f # format1 \<Rightarrow>
             if f = CHR 0x00 then Some (args, s)
             else do { (args1, s1) \<leftarrow> printFormat f args s; print format1 args1 s1 })
      else do { s1 \<leftarrow> logOutput_call (\<lambda>p. print_char p c) s; print format args s1 })"

section \<open>ThorLogging: the severity gate and the decoration\<close>

text \<open>
  \<^verbatim>\<open>static const char levels[] = "FEWITV"\<close> has seven elements, the last one the NUL.
  An index outside the array is a fault.
\<close>

definition levels :: string where
  "levels = ''FEWITV'' @ [CHR 0x00]"

definition levels_at :: "int \<Rightarrow> char option" where
  "levels_at i = (if 0 \<le> i \<and> i < int (length levels) then Some (levels ! nat i) else None)"

text \<open>
  \<^verbatim>\<open>if (hook != nullptr) hook(_logOutput, level)\<close>, for the prefix and the suffix hook.
  The call runs the code at the address \<open>f\<close>: the state continues as the hook left
  it, with the hook's text appended to the output. \<^verbatim>\<open>printLevel\<close> reads \<^verbatim>\<open>_showLevel\<close>,
  \<^verbatim>\<open>_logOutput\<close> and \<^verbatim>\<open>_suffix\<close> after the hooks that precede the read, as the code does;
  \<^verbatim>\<open>level\<close> and \<^verbatim>\<open>cr\<close> are its parameters, out of a hook's reach.
\<close>

fun invoke ::
  "('l, 'e) hook_table \<Rightarrow> printfunction option \<Rightarrow> c_int \<Rightarrow> ('l, 'e) state \<Rightarrow> ('l, 'e) state" where
  "invoke hooks None level s = s"
| "invoke hooks (Some f) level s =
     (let (txt, u) = hooks f (m_logOutput s) level s in u\<lparr>stdout := stdout s @ txt\<rparr>)"

definition printLevel ::
  "('l, 'e) hook_table \<Rightarrow> c_int \<Rightarrow> bool \<Rightarrow> string \<Rightarrow> 'l::len va_list \<Rightarrow> ('l, 'e) state
     \<Rightarrow> ('l, 'e) state option" where
  "printLevel hooks level0 cr msg args s =
     (if sint (m_level s) < sint level0 then Some s
      else
        let level = (if sint level0 < sint THORLOG_LEVEL_SILENT then THORLOG_LEVEL_SILENT else level0);
            s1 = invoke hooks (m_prefix s) level s
        in do {
          s2 \<leftarrow> (if m_showLevel s1 then
                   do { tag \<leftarrow> levels_at (sint level - 1);
                        s' \<leftarrow> logOutput_call (\<lambda>p. print_char p tag) s1;
                        logOutput_call (\<lambda>p. print_str p (Some '': '')) s' }
                 else Some s1);
          (rest, s3) \<leftarrow> print msg args s2;
          let s4 = invoke hooks (m_suffix s3) level s3 in
          if cr then logOutput_call (\<lambda>p. print_str p (Some THORLOG_CR)) s4 else Some s4
        })"

text \<open>The fourteen public entry points.\<close>

definition fatal ::
  "('l, 'e) hook_table \<Rightarrow> string \<Rightarrow> 'l::len va_list \<Rightarrow> ('l, 'e) state \<Rightarrow> ('l, 'e) state option" where
  "fatal hooks msg args s = printLevel hooks THORLOG_LEVEL_FATAL False msg args s"

definition fatalln ::
  "('l, 'e) hook_table \<Rightarrow> string \<Rightarrow> 'l::len va_list \<Rightarrow> ('l, 'e) state \<Rightarrow> ('l, 'e) state option" where
  "fatalln hooks msg args s = printLevel hooks THORLOG_LEVEL_FATAL True msg args s"

definition error ::
  "('l, 'e) hook_table \<Rightarrow> string \<Rightarrow> 'l::len va_list \<Rightarrow> ('l, 'e) state \<Rightarrow> ('l, 'e) state option" where
  "error hooks msg args s = printLevel hooks THORLOG_LEVEL_ERROR False msg args s"

definition errorln ::
  "('l, 'e) hook_table \<Rightarrow> string \<Rightarrow> 'l::len va_list \<Rightarrow> ('l, 'e) state \<Rightarrow> ('l, 'e) state option" where
  "errorln hooks msg args s = printLevel hooks THORLOG_LEVEL_ERROR True msg args s"

definition warning ::
  "('l, 'e) hook_table \<Rightarrow> string \<Rightarrow> 'l::len va_list \<Rightarrow> ('l, 'e) state \<Rightarrow> ('l, 'e) state option" where
  "warning hooks msg args s = printLevel hooks THORLOG_LEVEL_WARNING False msg args s"

definition warningln ::
  "('l, 'e) hook_table \<Rightarrow> string \<Rightarrow> 'l::len va_list \<Rightarrow> ('l, 'e) state \<Rightarrow> ('l, 'e) state option" where
  "warningln hooks msg args s = printLevel hooks THORLOG_LEVEL_WARNING True msg args s"

definition notice ::
  "('l, 'e) hook_table \<Rightarrow> string \<Rightarrow> 'l::len va_list \<Rightarrow> ('l, 'e) state \<Rightarrow> ('l, 'e) state option" where
  "notice hooks msg args s = printLevel hooks THORLOG_LEVEL_NOTICE False msg args s"

definition noticeln ::
  "('l, 'e) hook_table \<Rightarrow> string \<Rightarrow> 'l::len va_list \<Rightarrow> ('l, 'e) state \<Rightarrow> ('l, 'e) state option" where
  "noticeln hooks msg args s = printLevel hooks THORLOG_LEVEL_NOTICE True msg args s"

definition info ::
  "('l, 'e) hook_table \<Rightarrow> string \<Rightarrow> 'l::len va_list \<Rightarrow> ('l, 'e) state \<Rightarrow> ('l, 'e) state option" where
  "info hooks msg args s = printLevel hooks THORLOG_LEVEL_INFO False msg args s"

definition infoln ::
  "('l, 'e) hook_table \<Rightarrow> string \<Rightarrow> 'l::len va_list \<Rightarrow> ('l, 'e) state \<Rightarrow> ('l, 'e) state option" where
  "infoln hooks msg args s = printLevel hooks THORLOG_LEVEL_INFO True msg args s"

definition trace ::
  "('l, 'e) hook_table \<Rightarrow> string \<Rightarrow> 'l::len va_list \<Rightarrow> ('l, 'e) state \<Rightarrow> ('l, 'e) state option" where
  "trace hooks msg args s = printLevel hooks THORLOG_LEVEL_TRACE False msg args s"

definition traceln ::
  "('l, 'e) hook_table \<Rightarrow> string \<Rightarrow> 'l::len va_list \<Rightarrow> ('l, 'e) state \<Rightarrow> ('l, 'e) state option" where
  "traceln hooks msg args s = printLevel hooks THORLOG_LEVEL_TRACE True msg args s"

definition verbose ::
  "('l, 'e) hook_table \<Rightarrow> string \<Rightarrow> 'l::len va_list \<Rightarrow> ('l, 'e) state \<Rightarrow> ('l, 'e) state option" where
  "verbose hooks msg args s = printLevel hooks THORLOG_LEVEL_VERBOSE False msg args s"

definition verboseln ::
  "('l, 'e) hook_table \<Rightarrow> string \<Rightarrow> 'l::len va_list \<Rightarrow> ('l, 'e) state \<Rightarrow> ('l, 'e) state option" where
  "verboseln hooks msg args s = printLevel hooks THORLOG_LEVEL_VERBOSE True msg args s"

text \<open>
  The entry points as data, to speak about all of them at once: the method called,
  the severity it passes to \<^verbatim>\<open>printLevel\<close> and whether it is a newline variant.
\<close>

datatype entry_point =
  Fatal | Fatalln | Error | Errorln | Warning | Warningln | Notice | Noticeln
  | Info | Infoln | Trace | Traceln | Verbose | Verboseln

fun log_call ::
  "('l, 'e) hook_table \<Rightarrow> entry_point \<Rightarrow> string \<Rightarrow> 'l::len va_list \<Rightarrow> ('l, 'e) state
     \<Rightarrow> ('l, 'e) state option" where
  "log_call hooks Fatal = fatal hooks"
| "log_call hooks Fatalln = fatalln hooks"
| "log_call hooks Error = error hooks"
| "log_call hooks Errorln = errorln hooks"
| "log_call hooks Warning = warning hooks"
| "log_call hooks Warningln = warningln hooks"
| "log_call hooks Notice = notice hooks"
| "log_call hooks Noticeln = noticeln hooks"
| "log_call hooks Info = info hooks"
| "log_call hooks Infoln = infoln hooks"
| "log_call hooks Trace = trace hooks"
| "log_call hooks Traceln = traceln hooks"
| "log_call hooks Verbose = verbose hooks"
| "log_call hooks Verboseln = verboseln hooks"

fun severity :: "entry_point \<Rightarrow> c_int" where
  "severity Fatal = THORLOG_LEVEL_FATAL"
| "severity Fatalln = THORLOG_LEVEL_FATAL"
| "severity Error = THORLOG_LEVEL_ERROR"
| "severity Errorln = THORLOG_LEVEL_ERROR"
| "severity Warning = THORLOG_LEVEL_WARNING"
| "severity Warningln = THORLOG_LEVEL_WARNING"
| "severity Notice = THORLOG_LEVEL_NOTICE"
| "severity Noticeln = THORLOG_LEVEL_NOTICE"
| "severity Info = THORLOG_LEVEL_INFO"
| "severity Infoln = THORLOG_LEVEL_INFO"
| "severity Trace = THORLOG_LEVEL_TRACE"
| "severity Traceln = THORLOG_LEVEL_TRACE"
| "severity Verbose = THORLOG_LEVEL_VERBOSE"
| "severity Verboseln = THORLOG_LEVEL_VERBOSE"

fun newline_variant :: "entry_point \<Rightarrow> bool" where
  "newline_variant Fatalln = True"
| "newline_variant Errorln = True"
| "newline_variant Warningln = True"
| "newline_variant Noticeln = True"
| "newline_variant Infoln = True"
| "newline_variant Traceln = True"
| "newline_variant Verboseln = True"
| "newline_variant _ = False"

text \<open>
  The logger of \<^verbatim>\<open>examples/espidf-basic\<close> after its first statement,
  \<^verbatim>\<open>Log.begin(THORLOG_LEVEL_VERBOSE, &EspIdfOutput)\<close>, on a 32-bit target.
\<close>

definition Log :: "(32, unit) state" where
  "Log = ThorLogging_begin THORLOG_LEVEL_VERBOSE (Some EspIdfPrint) True (ThorLogging ())"

section \<open>Formats made of whole directives\<close>

text \<open>
  A format prefix after which the scan of \<^verbatim>\<open>print\<close> stands at the start of a fresh
  character: it holds no NUL byte, and every \<open>%\<close> that opens a directive is followed
  by its specifier. A \<open>%\<close> appended to such a prefix is a lone trailing \<open>%\<close>.
\<close>

fun whole_directives :: "string \<Rightarrow> bool" where
  "whole_directives [] = True"
| "whole_directives (c # cs) =
     (c \<noteq> CHR 0x00 \<and>
      (if c = CHR ''%'' then (case cs of [] \<Rightarrow> False | f # cs1 \<Rightarrow> f \<noteq> CHR 0x00 \<and> whole_directives cs1)
       else whole_directives cs))"

section \<open>Digit strings of a fixed width, and the number a digit string stands for\<close>

text \<open>
  The reading of the claims about number formats. \<open>fixed_digits b k n\<close> is \<open>n\<close>
  written in base \<open>b\<close> with exactly \<open>k\<close> digits, most significant first, zero-padded
  on the left. \<open>number_of b ds\<close> is the number that the digit string \<open>ds\<close> stands for
  in base \<open>b\<close>.
\<close>

fun fixed_digits :: "nat \<Rightarrow> nat \<Rightarrow> nat \<Rightarrow> string" where
  "fixed_digits b 0 n = []"
| "fixed_digits b (Suc k) n = fixed_digits b k (n div b) @ [digit_char (n mod b)]"

definition digit_value :: "char \<Rightarrow> nat" where
  "digit_value c = length (takeWhile (\<lambda>d. d \<noteq> c) ''0123456789abcdef'')"

definition number_of :: "nat \<Rightarrow> string \<Rightarrow> nat" where
  "number_of b ds = foldl (\<lambda>a c. a * b + digit_value c) 0 ds"

section \<open>The text a sink method writes\<close>

text \<open>
  Every method of \<^verbatim>\<open>EspIdfPrint\<close> ends in \<^verbatim>\<open>printf\<close>. These functions name the text
  that the numeric methods hand to it; the lemmas below tie them to the methods.
\<close>

definition binary_text :: "'l::len word \<Rightarrow> string" where
  "binary_text num = (if num = 0 then ''0'' else fmt_s (printBinary_loop 64 num []))"

definition long_text :: "'l::len word \<Rightarrow> c_int \<Rightarrow> string" where
  "long_text num base =
     (if base = THORLOG_HEX then fmt_lx num
      else if base = THORLOG_BIN then binary_text num
      else fmt_ld num)"

definition ulong_text :: "'l::len word \<Rightarrow> c_int \<Rightarrow> string" where
  "ulong_text num base =
     (if base = THORLOG_HEX then fmt_lx num
      else if base = THORLOG_BIN then binary_text num
      else fmt_lu num)"

section \<open>Basic facts about the output\<close>

lemma printf_fields [simp]:
  "stdout (printf t s) = stdout s @ t"
  "m_level (printf t s) = m_level s"
  "m_showLevel (printf t s) = m_showLevel s"
  "m_logOutput (printf t s) = m_logOutput s"
  "m_prefix (printf t s) = m_prefix s"
  "m_suffix (printf t s) = m_suffix s"
  "env (printf t s) = env s"
  by (simp_all add: printf_def)

lemma printf_printf [simp]: "printf a (printf b s) = printf (b @ a) s"
  by (simp add: printf_def)

lemma printf_Nil [simp]: "printf [] s = s"
  by (simp add: printf_def)

lemma print_char_printf: "print_char p c s = printf [c] s"
  by (simp add: print_char_def fmt_c_def)

lemma print_str_printf:
  "print_str p str s = printf (case str of None \<Rightarrow> [] | Some cs \<Rightarrow> fmt_s cs) s"
  by (simp add: print_str_def split: option.splits)

lemma printBinary_printf: "printBinary p num s = printf (binary_text num) s"
  by (simp add: printBinary_def binary_text_def print_char_printf print_str_printf)

lemma printUnsignedLong_printf: "printUnsignedLong p num base s = printf (ulong_text num base) s"
  by (simp add: printUnsignedLong_def ulong_text_def printBinary_printf THORLOG_DEC_def THORLOG_HEX_def THORLOG_BIN_def)

lemma printSignedLong_printf: "printSignedLong p num base s = printf (long_text num base) s"
  by (simp add: printSignedLong_def long_text_def printBinary_printf THORLOG_DEC_def THORLOG_HEX_def THORLOG_BIN_def)

lemmas sink_printf =
  print_char_printf print_str_printf
  print_int_def print_uint_def print_long_def print_ulong_def print_double_def
  printUnsignedLong_printf printSignedLong_printf

lemma logOutput_call_Some: "m_logOutput s = Some p \<Longrightarrow> logOutput_call m s = Some (m p s)"
  by (simp add: logOutput_call_def)

lemma logOutput_call_None: "m_logOutput s = None \<Longrightarrow> logOutput_call m s = None"
  by (simp add: logOutput_call_def)

lemma pad_step:
  "m_logOutput s = Some p \<Longrightarrow>
   (if b then logOutput_call (\<lambda>p. print_char p c) s else Some s) = Some (printf (if b then [c] else []) s)"
  by (simp add: logOutput_call_Some print_char_printf)

lemma printFormat_X:
  "m_logOutput s = Some p \<Longrightarrow>
   printFormat (CHR ''X'') (VWord x # args) s =
     Some (args, printf (''0x''
       @ (if x < 0x10000000 then ''0'' else [])
       @ (if x < 0x1000000 then ''0'' else [])
       @ (if x < 0x100000 then ''0'' else [])
       @ (if x < 0x10000 then ''0'' else [])
       @ (if x < 0x1000 then ''0'' else [])
       @ (if x < 0x100 then ''0'' else [])
       @ (if x < 0x10 then ''0'' else [])
       @ fmt_lx x) s)"
  by (simp add: printFormat_def logOutput_call_Some pad_step sink_printf fmt_s_def ulong_text_def
      split del: if_split)


lemma printFormat_other:
  "f \<notin> set ''%scCdiluxXbBtTDFp'' \<Longrightarrow> printFormat f args s = Some (args, s)"
  by (simp add: printFormat_def)

lemma printFormat_nosink:
  assumes "m_logOutput s = None" and "printFormat f args s = Some (a, s')"
  shows "s' = s"
  using assms
  by (auto simp add: printFormat_def logOutput_call_None bind_eq_Some_conv split: if_splits prod.splits)

lemma printFormat_sink:
  assumes sink: "m_logOutput s = Some p" and run: "printFormat f args s = Some (a, s')"
  shows "\<exists>t. s' = printf t s"
proof -
  note rw = printFormat_def logOutput_call_Some pad_step sink_printf bind_eq_Some_conv
  consider "f = CHR ''%''" | "f = CHR ''s''" | "f = CHR ''c''" | "f = CHR ''C''"
    | "f = CHR ''d''" | "f = CHR ''i''" | "f = CHR ''l''" | "f = CHR ''u''"
    | "f = CHR ''x''" | "f = CHR ''X''" | "f = CHR ''b''" | "f = CHR ''B''"
    | "f = CHR ''t''" | "f = CHR ''T''" | "f = CHR ''D''" | "f = CHR ''F''"
    | "f = CHR ''p''" | "f \<notin> set ''%scCdiluxXbBtTDFp''"
    by auto
  then show ?thesis
  proof cases
    case 1 with sink run show ?thesis by (auto simp add: rw split del: if_split)
  next
    case 2 with sink run show ?thesis
      by (auto simp add: rw split del: if_split)
  next
    case 3 with sink run show ?thesis by (auto simp add: rw split del: if_split)
  next
    case 4 with sink run show ?thesis by (auto simp add: rw split: if_splits)
  next
    case 5 with sink run show ?thesis by (auto simp add: rw split del: if_split)
  next
    case 6 with sink run show ?thesis by (auto simp add: rw split del: if_split)
  next
    case 7 with sink run show ?thesis by (auto simp add: rw split del: if_split)
  next
    case 8 with sink run show ?thesis by (auto simp add: rw split del: if_split)
  next
    case 9 with sink run show ?thesis by (auto simp add: rw split del: if_split)
  next
    case 10 with sink run show ?thesis by (auto simp add: rw split del: if_split)
  next
    case 11 with sink run show ?thesis by (auto simp add: rw split del: if_split)
  next
    case 12 with sink run show ?thesis by (auto simp add: rw split del: if_split)
  next
    case 13 with sink run show ?thesis by (auto simp add: rw split del: if_split)
  next
    case 14 with sink run show ?thesis by (auto simp add: rw split del: if_split)
  next
    case 15 with sink run show ?thesis by (auto simp add: rw split del: if_split)
  next
    case 16 with sink run show ?thesis by (auto simp add: rw split del: if_split)
  next
    case 17 with sink run show ?thesis by (auto simp add: rw split del: if_split)
  next
    case 18 with run show ?thesis by (auto simp add: printFormat_other intro: exI[of _ "[]"])
  qed
qed


lemma printFormat_append:
  assumes "printFormat f args s = Some (a, s')"
  shows "\<exists>t. s' = printf t s"
proof (cases "m_logOutput s")
  case None
  have "s' = s" by (rule printFormat_nosink[OF None assms])
  then show ?thesis by (auto intro: exI[of _ "[]"])
next
  case (Some p)
  then show ?thesis using assms by (rule printFormat_sink)
qed

lemma logOutput_call_append:
  assumes "logOutput_call (\<lambda>p. print_char p c) s = Some s'"
  shows "m_logOutput s \<noteq> None \<and> s' = printf [c] s"
  using assms by (auto simp add: logOutput_call_def print_char_printf split: option.splits)

lemma logOutput_call_str:
  assumes "logOutput_call (\<lambda>p. print_str p (Some cs)) s = Some s'"
  shows "m_logOutput s \<noteq> None \<and> s' = printf (fmt_s cs) s"
  using assms by (auto simp add: logOutput_call_def print_str_printf split: option.splits)

lemma print_append:
  "print format args s = Some (a, s') \<Longrightarrow> \<exists>t. s' = printf t s"
proof (induction format args s arbitrary: a s' rule: print.induct)
  case (1 args s)
  then show ?case by (auto intro: exI[of _ "[]"])
next
  case (2 c format args s)
  show ?case
  proof (cases "c = CHR 0x00")
    case True
    with "2.prems" show ?thesis by (auto intro: exI[of _ "[]"])
  next
    case nz: False
    show ?thesis
    proof (cases "c = CHR ''%''")
      case pc: True
      show ?thesis
      proof (cases format)
        case Nil
        with "2.prems" pc show ?thesis by (auto intro: exI[of _ "[]"])
      next
        case (Cons f format1)
        show ?thesis
        proof (cases "f = CHR 0x00")
          case True
          with "2.prems" pc Cons show ?thesis by (auto intro: exI[of _ "[]"])
        next
          case fnz: False
          from "2.prems" pc Cons fnz obtain args1 s1 where
            pf: "printFormat f args s = Some (args1, s1)" and
            rest: "print format1 args1 s1 = Some (a, s')"
            by (auto simp add: bind_eq_Some_conv)
          from pf obtain t1 where t1: "s1 = printf t1 s" using printFormat_append by blast
          from "2.IH"(1)[OF nz pc Cons fnz _ _ rest] pf obtain t2 where "s' = printf t2 s1"
            by auto
          with t1 show ?thesis by auto
        qed
      qed
    next
      case npc: False
      from "2.prems" nz npc obtain s1 where
        pc1: "logOutput_call (\<lambda>p. print_char p c) s = Some s1" and
        rest: "print format args s1 = Some (a, s')"
        by (auto simp add: bind_eq_Some_conv)
      from pc1 have t1: "s1 = printf [c] s" using logOutput_call_append by blast
      from "2.IH"(2)[OF nz npc pc1 rest] obtain t2 where "s' = printf t2 s1" by auto
      with t1 show ?thesis by auto
    qed
  qed
qed

lemma logger_fields_printf [simp]: "logger_fields (printf t s) = logger_fields s"
  by (simp add: logger_fields_def)

lemma invoke_append: "\<exists>t. stdout (invoke hooks h l s) = stdout s @ t"
  by (cases h) (simp_all add: split_def Let_def)


lemma invoke_sink:
  assumes "m_logOutput s \<noteq> None"
    and "h = None \<or> (\<forall>f p l u. m_logOutput u \<noteq> None \<longrightarrow> m_logOutput (snd (hooks f p l u)) \<noteq> None)"
  shows "m_logOutput (invoke hooks h l s) \<noteq> None"
  using assms by (cases h) (simp_all add: split_def Let_def)

declare invoke.simps [simp del]

lemma printLevel_gated:
  "sint (m_level s) < sint L \<Longrightarrow> printLevel hooks L cr msg args s = Some s"
  by (simp add: printLevel_def)

lemma fmt_s_tag [simp]: "fmt_s '': '' = '': ''" "fmt_s THORLOG_CR = [CHR 0x0D]"
  by (simp_all add: fmt_s_def THORLOG_CR_def)

lemma printLevel_emitted:
  assumes gate: "sint L \<le> sint (m_level s)" and nonneg: "0 \<le> sint L"
    and run: "printLevel hooks L cr msg args s = Some s'"
  shows "\<exists>s2 s3 rest.
      (if m_showLevel (invoke hooks (m_prefix s) L s)
       then \<exists>tag. levels_at (sint L - 1) = Some tag \<and>
              m_logOutput (invoke hooks (m_prefix s) L s) \<noteq> None \<and>
              s2 = printf (tag # '': '') (invoke hooks (m_prefix s) L s)
       else s2 = invoke hooks (m_prefix s) L s) \<and>
      print msg args s2 = Some (rest, s3) \<and>
      (if cr
       then m_logOutput (invoke hooks (m_suffix s3) L s3) \<noteq> None \<and>
            s' = printf [CHR 0x0D] (invoke hooks (m_suffix s3) L s3)
       else s' = invoke hooks (m_suffix s3) L s3)"
proof -
  let ?s1 = "invoke hooks (m_prefix s) L s"
  from gate nonneg run obtain s2 rest s3 where
    tag: "(if m_showLevel ?s1 then
             do { tag \<leftarrow> levels_at (sint L - 1);
                  s' \<leftarrow> logOutput_call (\<lambda>p. print_char p tag) ?s1;
                  logOutput_call (\<lambda>p. print_str p (Some '': '')) s' }
           else Some ?s1) = Some s2" and
    body: "print msg args s2 = Some (rest, s3)" and
    fin: "(let s4 = invoke hooks (m_suffix s3) L s3 in
            if cr then logOutput_call (\<lambda>p. print_str p (Some THORLOG_CR)) s4 else Some s4) = Some s'"
    by (auto simp add: printLevel_def THORLOG_LEVEL_SILENT_def Let_def bind_eq_Some_conv
        simp del: sint_0 split del: if_split)
  have s2: "if m_showLevel ?s1
       then \<exists>tag. levels_at (sint L - 1) = Some tag \<and> m_logOutput ?s1 \<noteq> None \<and>
              s2 = printf (tag # '': '') ?s1
       else s2 = ?s1"
    using tag
    by (auto simp add: bind_eq_Some_conv dest!: logOutput_call_append logOutput_call_str)
  have "if cr
       then m_logOutput (invoke hooks (m_suffix s3) L s3) \<noteq> None \<and>
            s' = printf [CHR 0x0D] (invoke hooks (m_suffix s3) L s3)
       else s' = invoke hooks (m_suffix s3) L s3"
  proof (cases cr)
    case True
    with fin have "logOutput_call (\<lambda>p. print_str p (Some THORLOG_CR)) (invoke hooks (m_suffix s3) L s3) = Some s'"
      by (simp add: Let_def)
    from logOutput_call_str[OF this]
    show ?thesis using True by simp
  next
    case False
    with fin show ?thesis by (simp add: Let_def)
  qed
  with s2 body show ?thesis by blast
qed

section \<open>The interpreter does not depend on what was written before\<close>

lemma printf_eq_iff [simp]: "printf a s = printf b s \<longleftrightarrow> a = b"
proof
  assume "printf a s = printf b s"
  then have "stdout (printf a s) = stdout (printf b s)" by simp
  then show "a = b" by simp
qed simp

lemma printFormat_transfer_sink:
  assumes sink: "m_logOutput s = Some p" "m_logOutput u = Some p"
    and run: "printFormat f args s = Some (a, printf t s)"
  shows "printFormat f args u = Some (a, printf t u)"
proof -
  note rw = printFormat_def logOutput_call_Some pad_step sink_printf bind_eq_Some_conv
  consider "f = CHR ''%''" | "f = CHR ''s''" | "f = CHR ''c''" | "f = CHR ''C''"
    | "f = CHR ''d''" | "f = CHR ''i''" | "f = CHR ''l''" | "f = CHR ''u''"
    | "f = CHR ''x''" | "f = CHR ''X''" | "f = CHR ''b''" | "f = CHR ''B''"
    | "f = CHR ''t''" | "f = CHR ''T''" | "f = CHR ''D''" | "f = CHR ''F''"
    | "f = CHR ''p''" | "f \<notin> set ''%scCdiluxXbBtTDFp''"
    by auto
  then show ?thesis
  proof cases
    case 1 with sink run show ?thesis by (auto simp add: rw split del: if_split)
  next
    case 2 with sink run show ?thesis by (auto simp add: rw split del: if_split)
  next
    case 3 with sink run show ?thesis by (auto simp add: rw split del: if_split)
  next
    case 4 with sink run show ?thesis by (auto simp add: rw split: if_splits)
  next
    case 5 with sink run show ?thesis by (auto simp add: rw split del: if_split)
  next
    case 6 with sink run show ?thesis by (auto simp add: rw split del: if_split)
  next
    case 7 with sink run show ?thesis by (auto simp add: rw split del: if_split)
  next
    case 8 with sink run show ?thesis by (auto simp add: rw split del: if_split)
  next
    case 9 with sink run show ?thesis by (auto simp add: rw split del: if_split)
  next
    case 10 with sink run show ?thesis by (auto simp add: rw split del: if_split)
  next
    case 11 with sink run show ?thesis by (auto simp add: rw split del: if_split)
  next
    case 12 with sink run show ?thesis by (auto simp add: rw split del: if_split)
  next
    case 13 with sink run show ?thesis by (auto simp add: rw split del: if_split)
  next
    case 14 with sink run show ?thesis by (auto simp add: rw split del: if_split)
  next
    case 15 with sink run show ?thesis by (auto simp add: rw split del: if_split)
  next
    case 16 with sink run show ?thesis by (auto simp add: rw split del: if_split)
  next
    case 17 with sink run show ?thesis by (auto simp add: rw split del: if_split)
  next
    case 18
    with run have "printf t s = printf [] s" by (simp add: printFormat_other)
    then have "t = []" by (simp only: printf_eq_iff)
    with 18 run show ?thesis by (simp add: printFormat_other)
  qed
qed


lemma print_transfer:
  assumes "m_logOutput s = Some p" "m_logOutput u = Some p"
    and "print format args s = Some (a, printf t s)"
  shows "print format args u = Some (a, printf t u)"
  using assms
proof (induction format args s arbitrary: u t rule: print.induct)
  case (1 args s)
  then have "printf [] s = printf t s" by simp
  then have "t = []" by (simp only: printf_eq_iff)
  with 1 show ?case by simp
next
  case (2 c format args s)
  note sink = "2.prems"(1,2) and run = "2.prems"(3)
  have stop: "t = [] \<and> a = args" if "Some (args, s) = Some (a, printf t s)"
  proof -
    from that have "printf [] s = printf t s" by simp
    then have "t = []" by (simp only: printf_eq_iff)
    with that show ?thesis by simp
  qed
  show ?case
  proof (cases "c = CHR 0x00")
    case True
    with run stop show ?thesis by simp
  next
    case nz: False
    show ?thesis
    proof (cases "c = CHR ''%''")
      case pc: True
      show ?thesis
      proof (cases format)
        case Nil
        with run pc stop show ?thesis by simp
      next
        case (Cons f format1)
        show ?thesis
        proof (cases "f = CHR 0x00")
          case True
          with run pc Cons stop show ?thesis by simp
        next
          case fnz: False
          from run pc Cons fnz obtain args1 s1 where
            pf: "printFormat f args s = Some (args1, s1)" and
            rest: "print format1 args1 s1 = Some (a, printf t s)"
            by (auto simp add: bind_eq_Some_conv)
          from pf obtain t1 where t1: "s1 = printf t1 s" using printFormat_append by blast
          from rest obtain t2 where t2: "printf t s = printf t2 s1" using print_append by blast
          with t1 have t: "t = t1 @ t2" by simp
          from pf t1 have pfu: "printFormat f args u = Some (args1, printf t1 u)"
            using printFormat_transfer_sink[OF sink] by simp
          have "print format1 args1 (printf t1 u) = Some (a, printf t2 (printf t1 u))"
          proof (rule "2.IH"(1)[OF nz pc Cons fnz pf refl])
            show "m_logOutput s1 = Some p" using t1 sink by simp
            show "m_logOutput (printf t1 u) = Some p" using sink by simp
            show "print format1 args1 s1 = Some (a, printf t2 s1)" using rest t2 by simp
          qed
          with pfu pc Cons fnz nz t show ?thesis by simp
        qed
      qed
    next
      case npc: False
      from run nz npc obtain s1 where
        pc1: "logOutput_call (\<lambda>p. print_char p c) s = Some s1" and
        rest: "print format args s1 = Some (a, printf t s)"
        by (auto simp add: bind_eq_Some_conv)
      from pc1 have t1: "s1 = printf [c] s" using logOutput_call_append by blast
      from rest obtain t2 where t2: "printf t s = printf t2 s1" using print_append by blast
      with t1 have t: "t = [c] @ t2" by simp
      have pcu: "logOutput_call (\<lambda>p. print_char p c) u = Some (printf [c] u)"
        using sink by (simp add: logOutput_call_Some print_char_printf)
      have "print format args (printf [c] u) = Some (a, printf t2 (printf [c] u))"
      proof (rule "2.IH"(2)[OF nz npc pc1])
        show "m_logOutput s1 = Some p" using t1 sink by simp
        show "m_logOutput (printf [c] u) = Some p" using sink by simp
        show "print format args s1 = Some (a, printf t2 s1)" using rest t2 by simp
      qed
      with pcu nz npc t show ?thesis by simp
    qed
  qed
qed

lemma print_defined:
  assumes "m_logOutput s = Some p" "m_logOutput u = Some p" and "print format args s = Some r"
  shows "\<exists>r'. print format args u = Some r'"
proof -
  obtain a s' where r: "r = (a, s')" by (cases r)
  with assms(3) obtain t where "s' = printf t s" using print_append by blast
  with assms r have "print format args u = Some (a, printf t u)"
    using print_transfer by blast
  then show ?thesis by blast
qed

section \<open>The decoration pipeline\<close>

lemma log_call_printLevel:
  "log_call hooks ep msg args s = printLevel hooks (severity ep) (newline_variant ep) msg args s"
  by (cases ep)
    (simp_all add: fatal_def fatalln_def error_def errorln_def warning_def warningln_def
      notice_def noticeln_def info_def infoln_def trace_def traceln_def verbose_def verboseln_def)

lemma severity_range: "1 \<le> sint (severity ep) \<and> sint (severity ep) \<le> 6"
  by (cases ep)
    (simp_all add: THORLOG_LEVEL_FATAL_def THORLOG_LEVEL_ERROR_def THORLOG_LEVEL_WARNING_def
      THORLOG_LEVEL_NOTICE_def THORLOG_LEVEL_INFO_def THORLOG_LEVEL_TRACE_def
      THORLOG_LEVEL_VERBOSE_def)

lemma levels_at_level:
  assumes "1 \<le> i" "i \<le> 6"
  shows "levels_at (i - 1) = Some (''FEWITV'' ! nat (i - 1))"
proof -
  from assms have "nat (i - 1) < length ''FEWITV''" by simp
  then have "levels ! nat (i - 1) = ''FEWITV'' ! nat (i - 1)"
    unfolding levels_def by (rule nth_append_left)
  with assms show ?thesis by (simp add: levels_at_def levels_def)
qed

lemma sink_cases: "m_logOutput s \<noteq> None \<Longrightarrow> m_logOutput s = Some EspIdfPrint"
  by (cases "m_logOutput s") (auto intro: ThorPrint.exhaust)

lemma printLevel_returns:
  assumes lv: "1 \<le> sint L" "sint L \<le> 6" and sink: "m_logOutput s \<noteq> None"
    and body: "print msg args s \<noteq> None"
    and hk: "(m_prefix s = None \<and> m_suffix s = None) \<or>
             (\<forall>f p l u. m_logOutput u \<noteq> None \<longrightarrow> m_logOutput (snd (hooks f p l u)) \<noteq> None)"
  shows "\<exists>s'. printLevel hooks L cr msg args s = Some s'"
proof (cases "sint (m_level s) < sint L")
  case True
  then show ?thesis by (simp add: printLevel_def)
next
  case False
  let ?s1 = "invoke hooks (m_prefix s) L s"
  let ?s2 = "if m_showLevel ?s1 then printf (''FEWITV'' ! nat (sint L - 1) # '': '') ?s1 else ?s1"
  from hk have "m_prefix s = None \<or>
      (\<forall>f p l u. m_logOutput u \<noteq> None \<longrightarrow> m_logOutput (snd (hooks f p l u)) \<noteq> None)"
    by blast
  from invoke_sink[OF sink this] have sink1: "m_logOutput ?s1 \<noteq> None" .
  then have sink2: "m_logOutput ?s2 \<noteq> None" by simp
  from body obtain r where r: "print msg args s = Some r" by auto
  from print_defined[OF sink_cases[OF sink] sink_cases[OF sink2] r] obtain a s3 where
    s3: "print msg args ?s2 = Some (a, s3)" by auto
  then obtain t where t: "s3 = printf t ?s2" using print_append by blast
  with sink2 have sink3: "m_logOutput s3 \<noteq> None" by simp
  have "m_suffix s3 = None \<or>
      (\<forall>f p l u. m_logOutput u \<noteq> None \<longrightarrow> m_logOutput (snd (hooks f p l u)) \<noteq> None)"
  proof (cases "m_prefix s = None \<and> m_suffix s = None")
    case True
    then have "?s1 = s" by (simp add: invoke.simps)
    with t True show ?thesis by simp
  next
    case False
    with hk show ?thesis by blast
  qed
  from invoke_sink[OF sink3 this]
  have sink4: "m_logOutput (invoke hooks (m_suffix s3) L s3) \<noteq> None" .
  have tag: "(if m_showLevel ?s1 then
             do { tag \<leftarrow> levels_at (sint L - 1);
                  s' \<leftarrow> logOutput_call (\<lambda>p. print_char p tag) ?s1;
                  logOutput_call (\<lambda>p. print_str p (Some '': '')) s' }
           else Some ?s1) = Some ?s2"
    using lv sink_cases[OF sink1]
    by (simp add: levels_at_level logOutput_call_Some print_char_printf print_str_printf)
  have "printLevel hooks L cr msg args s =
      (if cr then logOutput_call (\<lambda>p. print_str p (Some THORLOG_CR)) (invoke hooks (m_suffix s3) L s3)
       else Some (invoke hooks (m_suffix s3) L s3))"
    using False lv
    by (simp add: printLevel_def THORLOG_LEVEL_SILENT_def Let_def tag s3 del: sint_0 split del: if_split)
  with sink_cases[OF sink4] show ?thesis by (simp add: logOutput_call_Some)
qed

lemma printLevel_entry:
  assumes gate: "sint L \<le> sint (m_level s)" and lv: "1 \<le> sint L" "sint L \<le> 6"
    and run: "printLevel hooks L cr msg args s = Some s'"
  shows "\<exists>rest s3.
      print msg args
        (if m_showLevel (invoke hooks (m_prefix s) L s)
         then printf (''FEWITV'' ! nat (sint L - 1) # '': '') (invoke hooks (m_prefix s) L s)
         else invoke hooks (m_prefix s) L s) = Some (rest, s3) \<and>
      s' = (if cr then printf [CHR 0x0D] (invoke hooks (m_suffix s3) L s3)
            else invoke hooks (m_suffix s3) L s3)"
proof -
  from lv have "0 \<le> sint L" by simp
  from printLevel_emitted[OF gate this run] obtain s2 s3 rest where
    s2: "if m_showLevel (invoke hooks (m_prefix s) L s)
       then \<exists>tag. levels_at (sint L - 1) = Some tag \<and>
              m_logOutput (invoke hooks (m_prefix s) L s) \<noteq> None \<and>
              s2 = printf (tag # '': '') (invoke hooks (m_prefix s) L s)
       else s2 = invoke hooks (m_prefix s) L s" and
    body: "print msg args s2 = Some (rest, s3)" and
    fin: "if cr
       then m_logOutput (invoke hooks (m_suffix s3) L s3) \<noteq> None \<and>
            s' = printf [CHR 0x0D] (invoke hooks (m_suffix s3) L s3)
       else s' = invoke hooks (m_suffix s3) L s3"
    by blast
  from s2 lv have "s2 = (if m_showLevel (invoke hooks (m_prefix s) L s)
         then printf (''FEWITV'' ! nat (sint L - 1) # '': '') (invoke hooks (m_prefix s) L s)
         else invoke hooks (m_prefix s) L s)"
    by (auto simp add: levels_at_level split: if_splits)
  moreover from fin have
    "s' = (if cr then printf [CHR 0x0D] (invoke hooks (m_suffix s3) L s3)
           else invoke hooks (m_suffix s3) L s3)"
    by (auto split: if_splits)
  ultimately show ?thesis using body by blast
qed

lemma printLevel_output:
  assumes gate: "sint L \<le> sint (m_level s)" and lv: "1 \<le> sint L" "sint L \<le> 6"
    and run: "printLevel hooks L cr msg args s = Some s'"
  shows "\<exists>pre body suf rest s3.
      stdout (invoke hooks (m_prefix s) L s) = stdout s @ pre \<and>
      print msg args
        (if m_showLevel (invoke hooks (m_prefix s) L s)
         then printf (''FEWITV'' ! nat (sint L - 1) # '': '') (invoke hooks (m_prefix s) L s)
         else invoke hooks (m_prefix s) L s) = Some (rest, s3) \<and>
      stdout s3 = stdout (invoke hooks (m_prefix s) L s)
          @ (if m_showLevel (invoke hooks (m_prefix s) L s)
             then ''FEWITV'' ! nat (sint L - 1) # '': '' else []) @ body \<and>
      stdout (invoke hooks (m_suffix s3) L s3) = stdout s3 @ suf \<and>
      stdout s' = stdout s @ pre
          @ (if m_showLevel (invoke hooks (m_prefix s) L s)
             then ''FEWITV'' ! nat (sint L - 1) # '': '' else [])
          @ body @ suf @ (if cr then [CHR 0x0D] else [])"
proof -
  let ?s1 = "invoke hooks (m_prefix s) L s"
  let ?tag = "if m_showLevel ?s1 then ''FEWITV'' ! nat (sint L - 1) # '': '' else []"
  let ?s2 = "if m_showLevel ?s1 then printf (''FEWITV'' ! nat (sint L - 1) # '': '') ?s1 else ?s1"
  from printLevel_entry[OF gate lv run] obtain rest s3 where
    b: "print msg args ?s2 = Some (rest, s3)" and
    fin: "s' = (if cr then printf [CHR 0x0D] (invoke hooks (m_suffix s3) L s3)
                else invoke hooks (m_suffix s3) L s3)"
    by blast
  obtain pre where pre: "stdout ?s1 = stdout s @ pre" using invoke_append by blast
  from b obtain body where "s3 = printf body ?s2" using print_append by blast
  then have body: "stdout s3 = stdout ?s1 @ ?tag @ body" by simp
  obtain suf where suf: "stdout (invoke hooks (m_suffix s3) L s3) = stdout s3 @ suf"
    using invoke_append by blast
  from fin suf body pre have
    "stdout s' = stdout s @ pre @ ?tag @ body @ suf @ (if cr then [CHR 0x0D] else [])"
    by simp
  with pre b body suf show ?thesis by blast
qed

lemma print_plain_writes:
  assumes "c \<noteq> CHR ''%''" "c \<noteq> CHR 0x00" and "print (c # m) args s = Some (rest, s3)"
    and "stdout s3 = stdout s @ body"
  shows "body \<noteq> []"
proof -
  from assms(1-3) obtain s1 where
    w: "logOutput_call (\<lambda>p. print_char p c) s = Some s1" and r: "print m args s1 = Some (rest, s3)"
    by (auto simp add: bind_eq_Some_conv)
  from w have "s1 = printf [c] s" using logOutput_call_append by blast
  moreover from r obtain t where "s3 = printf t s1" using print_append by blast
  ultimately have "stdout s3 = stdout s @ c # t" by simp
  with assms(4) show ?thesis by auto
qed

lemma log_call_returns:
  assumes "m_logOutput s \<noteq> None \<and> print msg args s \<noteq> None \<and>
           ((m_prefix s = None \<and> m_suffix s = None) \<or>
            (\<forall>f p l u. m_logOutput u \<noteq> None \<longrightarrow> m_logOutput (snd (hooks f p l u)) \<noteq> None))"
  shows "\<exists>s'. log_call hooks ep msg args s = Some s'"
  using assms severity_range[of ep]
  by (simp add: log_call_printLevel printLevel_returns)

section \<open>Evaluating concrete calls\<close>

lemma begin_fields [simp]:
  "m_level (ThorLogging_begin l out sl s) = thorlog_constrain l THORLOG_LEVEL_SILENT THORLOG_LEVEL_VERBOSE"
  "m_showLevel (ThorLogging_begin l out sl s) = sl"
  "m_logOutput (ThorLogging_begin l out sl s) = out"
  "m_prefix (ThorLogging_begin l out sl s) = m_prefix s"
  "m_suffix (ThorLogging_begin l out sl s) = m_suffix s"
  "stdout (ThorLogging_begin l out sl s) = stdout s"
  "env (ThorLogging_begin l out sl s) = env s"
  by (simp_all add: ThorLogging_begin_def)

lemma ThorLogging_fields [simp]:
  "m_level (ThorLogging e) = THORLOG_LEVEL_SILENT"
  "m_showLevel (ThorLogging e) = True"
  "m_logOutput (ThorLogging e) = None"
  "m_prefix (ThorLogging e) = None"
  "m_suffix (ThorLogging e) = None"
  "stdout (ThorLogging e) = []"
  "env (ThorLogging e) = e"
  by (simp_all add: ThorLogging_def)

lemmas level_defs =
  THORLOG_LEVEL_SILENT_def THORLOG_LEVEL_FATAL_def THORLOG_LEVEL_ERROR_def
  THORLOG_LEVEL_WARNING_def THORLOG_LEVEL_NOTICE_def THORLOG_LEVEL_INFO_def
  THORLOG_LEVEL_TRACE_def THORLOG_LEVEL_VERBOSE_def

lemmas run_defs =
  printLevel_def logOutput_call_Some print_char_printf print_str_printf levels_at_def levels_def
  thorlog_constrain_def level_defs invoke.simps fmt_s_def THORLOG_CR_def

lemma Log_fields [simp]:
  "m_level Log = 6"
  "m_showLevel Log = True"
  "m_logOutput Log = Some EspIdfPrint"
  "m_prefix Log = None"
  "m_suffix Log = None"
  "stdout Log = []"
  by (simp_all add: Log_def thorlog_constrain_def level_defs)

lemma config_fields [simp]:
  "m_level (setLevel l s) = thorlog_constrain l THORLOG_LEVEL_SILENT THORLOG_LEVEL_VERBOSE"
  "m_showLevel (setLevel l s) = m_showLevel s"
  "m_logOutput (setLevel l s) = m_logOutput s"
  "m_prefix (setLevel l s) = m_prefix s"
  "m_suffix (setLevel l s) = m_suffix s"
  "stdout (setLevel l s) = stdout s"
  "m_level (setShowLevel b s) = m_level s"
  "m_showLevel (setShowLevel b s) = b"
  "m_logOutput (setShowLevel b s) = m_logOutput s"
  "m_prefix (setShowLevel b s) = m_prefix s"
  "m_suffix (setShowLevel b s) = m_suffix s"
  "stdout (setShowLevel b s) = stdout s"
  "m_level (setSuffix f s) = m_level s"
  "m_showLevel (setSuffix f s) = m_showLevel s"
  "m_logOutput (setSuffix f s) = m_logOutput s"
  "m_prefix (setSuffix f s) = m_prefix s"
  "m_suffix (setSuffix f s) = Some f"
  "stdout (setSuffix f s) = stdout s"
  "m_level (setPrefix f s) = m_level s"
  "m_showLevel (setPrefix f s) = m_showLevel s"
  "m_logOutput (setPrefix f s) = m_logOutput s"
  "m_prefix (setPrefix f s) = Some f"
  "m_suffix (setPrefix f s) = m_suffix s"
  "stdout (setPrefix f s) = stdout s"
  by (simp_all add: setLevel_def setShowLevel_def setSuffix_def setPrefix_def)

section \<open>Digit strings\<close>

declare digits.simps [simp del]

lemma digits_small: "n < b \<Longrightarrow> digits b n = [digit_char n]"
  by (simp add: digits.simps)

lemma digits_step: "2 \<le> b \<Longrightarrow> b \<le> n \<Longrightarrow> digits b n = digits b (n div b) @ [digit_char (n mod b)]"
  by (subst digits.simps) simp

lemma digits_nonempty: "digits b n \<noteq> []"
  by (subst digits.simps) simp

lemma digit_char_cases:
  assumes "(d :: nat) < 16"
  shows "d = 0 \<or> d = 1 \<or> d = 2 \<or> d = 3 \<or> d = 4 \<or> d = 5 \<or> d = 6 \<or> d = 7 \<or> d = 8 \<or> d = 9
       \<or> d = 10 \<or> d = 11 \<or> d = 12 \<or> d = 13 \<or> d = 14 \<or> d = 15"
  using assms by arith

lemma digit_char_mem: "d < 16 \<Longrightarrow> digit_char d \<in> set ''0123456789abcdef''"
  using digit_char_cases[of d] by (auto simp add: digit_char_def)

lemma digit_value_char: "d < 16 \<Longrightarrow> digit_value (digit_char d) = d"
  using digit_char_cases[of d] by (auto simp add: digit_char_def digit_value_def)

lemma digit_char_bin: "d < 2 \<Longrightarrow> digit_char d \<in> {CHR ''0'', CHR ''1''}"
proof -
  assume "d < 2"
  then have "d = 0 \<or> d = 1" by arith
  then show ?thesis by (auto simp add: digit_char_def)
qed

lemma digits_set:
  assumes "2 \<le> b" "b \<le> 16"
  shows "set (digits b n) \<subseteq> digit_char ` {0..<b}"
  using assms
proof (induction b n rule: digits.induct)
  case (1 b n)
  show ?case
  proof (cases "n < b")
    case True
    then show ?thesis by (simp add: digits_small)
  next
    case False
    with 1 have "set (digits b (n div b)) \<subseteq> digit_char ` {0..<b}" by simp
    moreover from 1 have "n mod b < b" by simp
    ultimately show ?thesis using False 1 by (simp add: digits_step)
  qed
qed

lemma number_of_snoc: "number_of b (ds @ [c]) = number_of b ds * b + digit_value c"
  by (simp add: number_of_def)

lemma number_of_digits:
  assumes "2 \<le> b" "b \<le> 16"
  shows "number_of b (digits b n) = n"
  using assms
proof (induction b n rule: digits.induct)
  case (1 b n)
  show ?case
  proof (cases "n < b")
    case True
    with 1 show ?thesis by (simp add: digits_small number_of_def digit_value_char)
  next
    case False
    with 1 have IH: "number_of b (digits b (n div b)) = n div b" by simp
    from 1 have "n mod b < 16" using mod_less_divisor[of b n] by linarith
    with False 1 IH show ?thesis
      by (simp add: digits_step number_of_snoc digit_value_char)
  qed
qed

lemma digits_hd:
  assumes "2 \<le> b" "0 < n"
  shows "hd (digits b n) \<in> digit_char ` {1..<b}"
  using assms
proof (induction b n rule: digits.induct)
  case (1 b n)
  show ?case
  proof (cases "n < b")
    case True
    with 1 show ?thesis by (simp add: digits_small)
  next
    case False
    with 1 have "0 < n div b" by (simp add: div_greater_zero_iff)
    with False 1 have "hd (digits b (n div b)) \<in> digit_char ` {1..<b}" by simp
    with False 1 show ?thesis by (simp add: digits_step digits_nonempty)
  qed
qed

lemma digits_length_le:
  assumes "2 \<le> b"
  shows "length (digits b n) \<le> Suc k \<longleftrightarrow> n < b ^ Suc k"
proof (induction k arbitrary: n)
  case 0
  show ?case
  proof (cases "n < b")
    case True
    then show ?thesis by (simp add: digits_small)
  next
    case False
    with assms show ?thesis using digits_nonempty[of b "n div b"]
      by (simp add: digits_step)
  qed
next
  case (Suc k)
  show ?case
  proof (cases "n < b")
    case True
    moreover from assms have "b \<le> b ^ Suc (Suc k)" by (intro self_le_power) simp_all
    ultimately have "n < b ^ Suc (Suc k)" by linarith
    with True show ?thesis by (simp add: digits_small del: power_Suc)
  next
    case False
    with assms have "length (digits b n) = Suc (length (digits b (n div b)))"
      by (simp add: digits_step)
    moreover have "n div b < b ^ Suc k \<longleftrightarrow> n < b ^ Suc (Suc k)"
      using assms by (simp add: div_less_iff_less_mult mult.commute)
    ultimately show ?thesis using Suc.IH[of "n div b"] by simp
  qed
qed

lemma fixed_digits_pad:
  assumes "2 \<le> b"
  shows "n < b ^ Suc k \<Longrightarrow>
         fixed_digits b (Suc k) n = replicate (Suc k - length (digits b n)) (digit_char 0) @ digits b n"
proof (induction k arbitrary: n)
  case 0
  then show ?case by (simp add: digits_small)
next
  case (Suc k)
  show ?case
  proof (cases "n < b")
    case True
    from assms have "0 < b ^ Suc k" by simp
    from Suc.IH[OF this] have "fixed_digits b (Suc k) 0 = replicate (Suc k) (digit_char 0)"
      using assms by (simp add: digits_small replicate_append_same)
    with True show ?thesis by (simp add: digits_small)
  next
    case False
    from Suc.prems assms have small: "n div b < b ^ Suc k"
      by (simp add: div_less_iff_less_mult mult.commute)
    from digits_length_le[OF assms, of "n div b" k] small
    have "length (digits b (n div b)) \<le> Suc k" by simp
    with False assms Suc.IH[OF small] show ?thesis
      by (simp add: digits_step Suc_diff_le)
  qed
qed

lemma fixed_digits_length [simp]: "length (fixed_digits b k n) = k"
  by (induction k arbitrary: n) simp_all

section \<open>Words and their digits\<close>

lemma unat_numeral_fits:
  assumes "32 \<le> LENGTH('l::len)" "(numeral w :: nat) < 2 ^ 32"
  shows "unat (numeral w :: 'l word) = numeral w"
proof -
  from assms(1) have "(2::nat) ^ 32 \<le> 2 ^ LENGTH('l)" by (intro power_increasing) simp_all
  with assms(2) have "(numeral w :: nat) < 2 ^ LENGTH('l)" by linarith
  then show ?thesis by (simp add: take_bit_nat_eq_self)
qed

lemma word_less_numeral_fits:
  assumes "32 \<le> LENGTH('l::len)" "(numeral w :: nat) < 2 ^ 32"
  shows "(x :: 'l word) < numeral w \<longleftrightarrow> unat x < numeral w"
  by (simp only: word_less_nat_alt unat_numeral_fits[OF assms])

lemma unat_drop_bit_1: "unat (drop_bit 1 (num :: 'l::len word)) = unat num div 2"
proof -
  have "unat (drop_bit 1 num) = drop_bit 1 (unat num)" by (rule unat_drop_bit_eq)
  also have "\<dots> = unat num div 2" by (simp add: drop_bit_eq_div)
  finally show ?thesis .
qed

lemma unat_ucast_int:
  assumes "32 \<le> LENGTH('l::len)"
  shows "unat (ucast (c :: 32 word) :: 'l word) = unat c"
proof -
  from assms have "(2::nat) ^ 32 \<le> 2 ^ LENGTH('l)" by (intro power_increasing) simp_all
  moreover have "unat c < 2 ^ 32" using unsigned_less[of c] by simp
  ultimately have "unat c < 2 ^ LENGTH('l)" by linarith
  then show ?thesis by (simp only: unsigned_ucast_eq take_bit_nat_eq_self)
qed

lemma and_1_odd: "((num :: 'l::len word) AND 1 \<noteq> 0) = odd (unat num)"
proof -
  have "odd (unat num) \<longleftrightarrow> bit (unat num) 0" by (simp add: bit_0)
  also have "\<dots> \<longleftrightarrow> bit num 0" by (simp add: bit_unsigned_iff)
  also have "\<dots> \<longleftrightarrow> odd num" by (simp add: bit_0)
  also have "\<dots> \<longleftrightarrow> num AND 1 \<noteq> 0" by (simp add: and_one_eq even_iff_mod_2_eq_zero)
  finally show ?thesis by simp
qed

lemma digit_char_mod2: "digit_char (n mod 2) = (if odd n then CHR ''1'' else CHR ''0'')"
  by (simp add: digit_char_def odd_iff_mod_2_eq_one)

lemma printBinary_loop_digits:
  "unat num < 2 ^ pos \<Longrightarrow>
   printBinary_loop pos num buf = (if num = 0 then buf else digits 2 (unat num) @ buf)"
proof (induction pos arbitrary: num buf)
  case 0
  then have "num = 0" by (simp add: unat_0_iff)
  then show ?case by simp
next
  case (Suc pos)
  show ?case
  proof (cases "num = 0")
    case True
    then show ?thesis by simp
  next
    case False
    then have "unat num \<noteq> 0" by (simp only: unat_0_iff not_False_eq_True)
    then have pos: "0 < unat num" by simp
    let ?bit = "if num AND 1 \<noteq> 0 then CHR ''1'' else CHR ''0''"
    have bit: "?bit = digit_char (unat num mod 2)"
      by (simp only: and_1_odd digit_char_mod2)
    define q where "q = drop_bit 1 num"
    have uq: "unat q = unat num div 2" unfolding q_def by (rule unat_drop_bit_1)
    from Suc.prems have small: "unat q < 2 ^ pos"
      by (simp add: uq)
    have step: "printBinary_loop (Suc pos) num buf = printBinary_loop pos q (?bit # buf)"
      using False unfolding q_def by (simp add: word_greater_zero_iff)
    note IH = Suc.IH[OF small, of "?bit # buf"]
    show ?thesis
    proof (cases "unat num < 2")
      case True
      with pos have one: "unat num = 1" by linarith
      then have "unat q = 0" by (simp add: uq)
      then have "q = 0" by (simp only: unat_0_iff)
      with IH step bit one False show ?thesis
        by (simp add: digits_small)
    next
      case big: False
      then have "unat q \<noteq> 0" by (simp add: uq)
      then have nz: "q \<noteq> 0" by (simp only: unat_0_iff not_False_eq_True)
      from big have "digits 2 (unat num) = digits 2 (unat num div 2) @ [digit_char (unat num mod 2)]"
        by (simp add: digits_step)
      with IH step bit nz False show ?thesis
        by (simp add: uq)
    qed
  qed
qed

lemma digit_char_0 [simp]: "digit_char 0 = CHR ''0''"
  by (simp add: digit_char_def)

lemma replicate_numeral_unfold: "replicate (numeral k) x = x # replicate (pred_numeral k) x"
  by (simp add: numeral_eq_Suc)

lemma pad_X:
  assumes "n < 4294967296"
  shows "(if n < 268435456 then ''0'' else []) @ (if n < 16777216 then ''0'' else [])
       @ (if n < 1048576 then ''0'' else []) @ (if n < 65536 then ''0'' else [])
       @ (if n < 4096 then ''0'' else []) @ (if n < 256 then ''0'' else [])
       @ (if n < 16 then ''0'' else []) @ digits 16 n = fixed_digits 16 8 n"
proof -
  define len where "len = length (digits 16 n)"
  have c1: "n < 16 \<longleftrightarrow> len \<le> 1" using digits_length_le[of 16 n 0] by (simp add: len_def)
  have c2: "n < 256 \<longleftrightarrow> len \<le> 2" using digits_length_le[of 16 n 1] by (simp add: len_def numeral_2_eq_2)
  have c3: "n < 4096 \<longleftrightarrow> len \<le> 3" using digits_length_le[of 16 n 2] by (simp add: len_def)
  have c4: "n < 65536 \<longleftrightarrow> len \<le> 4" using digits_length_le[of 16 n 3] by (simp add: len_def)
  have c5: "n < 1048576 \<longleftrightarrow> len \<le> 5" using digits_length_le[of 16 n 4] by (simp add: len_def)
  have c6: "n < 16777216 \<longleftrightarrow> len \<le> 6" using digits_length_le[of 16 n 5] by (simp add: len_def)
  have c7: "n < 268435456 \<longleftrightarrow> len \<le> 7" using digits_length_le[of 16 n 6] by (simp add: len_def)
  have c8: "len \<le> 8" using digits_length_le[of 16 n 7] assms by (simp add: len_def)
  have c0: "1 \<le> len" using digits_nonempty[of 16 n] by (simp add: len_def Suc_le_eq)
  have fx: "fixed_digits 16 8 n = replicate (8 - len) (CHR ''0'') @ digits 16 n"
    using fixed_digits_pad[of 16 n 7] assms by (simp add: len_def)
  from c0 c8 consider "len = 1" | "len = 2" | "len = 3" | "len = 4" | "len = 5" | "len = 6"
    | "len = 7" | "len = 8" by linarith
  then show ?thesis
    by cases (simp_all add: c1 c2 c3 c4 c5 c6 c7 fx replicate_numeral_unfold)
qed


lemma digit_char_image16: "digit_char ` {0..<16} \<subseteq> set ''0123456789abcdef''"
proof (rule image_subsetI)
  fix d :: nat
  assume "d \<in> {0..<16}"
  then have "d < 16" by simp
  then show "digit_char d \<in> set ''0123456789abcdef''" by (rule digit_char_mem)
qed

lemma digit_char_image2: "digit_char ` {0..<2} \<subseteq> {CHR ''0'', CHR ''1''}"
proof (rule image_subsetI)
  fix d :: nat
  assume "d \<in> {0..<2}"
  then have "d < 2" by simp
  then show "digit_char d \<in> {CHR ''0'', CHR ''1''}" by (rule digit_char_bin)
qed

lemma fixed_digits_set:
  assumes "2 \<le> b"
  shows "set (fixed_digits b k n) \<subseteq> digit_char ` {0..<b}"
proof (induction k arbitrary: n)
  case 0
  show ?case by simp
next
  case (Suc k)
  from assms have "n mod b < b" by simp
  with Suc.IH[of "n div b"] show ?case by simp
qed

lemma number_of_fixed_digits:
  assumes "2 \<le> b" "b \<le> 16"
  shows "number_of b (fixed_digits b k n) = n mod b ^ k"
proof (induction k arbitrary: n)
  case 0
  show ?case by (simp add: number_of_def)
next
  case (Suc k)
  from assms have "n mod b < 16" using mod_less_divisor[of b n] by linarith
  then have "number_of b (fixed_digits b (Suc k) n) = (n div b mod b ^ k) * b + n mod b"
    by (simp add: number_of_snoc Suc.IH digit_value_char)
  also have "\<dots> = n mod b ^ Suc k"
    by (simp add: mod_mult2_eq mult.commute)
  finally show ?case .
qed

lemma fmt_s_no_NUL: "CHR 0x00 \<notin> set cs \<Longrightarrow> fmt_s cs = cs"
  by (auto simp add: fmt_s_def takeWhile_eq_all_conv)

lemma binary_text_digits:
  assumes "LENGTH('l::len) \<le> 64"
  shows "binary_text (num :: 'l word) = digits 2 (unat num)"
proof (cases "num = 0")
  case True
  then show ?thesis by (simp add: binary_text_def digits_small)
next
  case False
  from assms have "(2::nat) ^ LENGTH('l) \<le> 2 ^ 64" by (intro power_increasing) simp_all
  moreover have "unat num < 2 ^ LENGTH('l)" by (rule unsigned_less)
  ultimately have "unat num < 2 ^ 64" by linarith
  from printBinary_loop_digits[OF this, of "[]"] False
  have loop: "printBinary_loop 64 num [] = digits 2 (unat num)" by simp
  have "set (digits 2 (unat num)) \<subseteq> {CHR ''0'', CHR ''1''}"
    using digits_set[of 2 "unat num"] digit_char_image2 by auto
  then have "CHR 0x00 \<notin> set (digits 2 (unat num))" by auto
  then have "fmt_s (digits 2 (unat num)) = digits 2 (unat num)" by (rule fmt_s_no_NUL)
  with False loop show ?thesis by (simp add: binary_text_def)
qed

section \<open>The directive X\<close>

lemma fixed_digits_numeral:
  "fixed_digits b (numeral k) n = fixed_digits b (pred_numeral k) (n div b) @ [digit_char (n mod b)]"
  by (simp add: numeral_eq_Suc)

lemma printFormat_X_text:
  assumes len: "32 \<le> LENGTH('l::len)" and small: "unat (x :: 'l word) < 2 ^ 32"
    and sink: "m_logOutput (s :: ('l, 'e) state) = Some p"
  shows "printFormat (CHR ''X'') (VWord x # args) s
           = Some (args, printf (''0x'' @ fixed_digits 16 8 (unat x)) s)"
proof -
  note lt = word_less_numeral_fits[OF len]
  from small have n: "unat x < 4294967296" by simp
  have "(if x < 0x10000000 then ''0'' else []) @ (if x < 0x1000000 then ''0'' else [])
       @ (if x < 0x100000 then ''0'' else []) @ (if x < 0x10000 then ''0'' else [])
       @ (if x < 0x1000 then ''0'' else []) @ (if x < 0x100 then ''0'' else [])
       @ (if x < 0x10 then ''0'' else []) @ fmt_lx x = fixed_digits 16 8 (unat x)"
    unfolding fmt_lx_def using pad_X[OF n] by (simp add: lt)
  with printFormat_X[OF sink, of x args] show ?thesis by simp
qed

lemma digits_dead: "digits 16 57005 = ''dead''"
  by (simp add: digits.simps digit_char_def)


lemma hex_scenario_body: "print ''Hex: %X'' [VWord (0xDEAD :: 32 word)] (printf ''I: '' Log) = Some ([], printf ''I: Hex: 0x0000dead'' Log)"
  by (simp add: logOutput_call_Some print_char_printf printFormat_X fmt_lx_def digits_dead)

lemma hex_scenario:
  "infoln hooks ''Hex: %X'' [VWord 0xDEAD] Log = Some (printf (''I: Hex: 0x0000dead'' @ [CHR 0x0D]) Log)"
  by (simp add: infoln_def run_defs hex_scenario_body del: print.simps)

lemma fixed_hex_chars: "set (fixed_digits 16 k n) \<subseteq> set ''0123456789abcdef''"
proof -
  have "set (fixed_digits 16 k n) \<subseteq> digit_char ` {0..<16}"
    by (rule fixed_digits_set) simp
  then show ?thesis using digit_char_image16 by (rule order_trans)
qed

lemma number_of_fixed_hex8: "n < 2 ^ 32 \<Longrightarrow> number_of 16 (fixed_digits 16 8 n) = n"
proof -
  assume "n < 2 ^ 32"
  then have "n mod 16 ^ 8 = n" by simp
  moreover have "number_of 16 (fixed_digits 16 8 n) = n mod 16 ^ 8"
    by (rule number_of_fixed_digits) simp_all
  ultimately show ?thesis by (simp only:)
qed


lemma dead64: "fixed_digits 16 8 (unat (0xDEAD :: 64 word)) = ''0000dead''"
  by (simp add: fixed_digits_numeral digit_char_def)


section \<open>Binary and signed conversions of the sink\<close>

lemma digits_bin_chars: "set (digits 2 n) \<subseteq> {CHR ''0'', CHR ''1''}"
proof -
  have "set (digits 2 n) \<subseteq> digit_char ` {0..<2}" by (rule digits_set) simp_all
  then show ?thesis using digit_char_image2 by (rule order_trans)
qed

lemma digits_hex_chars: "set (digits 16 n) \<subseteq> set ''0123456789abcdef''"
proof -
  have "set (digits 16 n) \<subseteq> digit_char ` {0..<16}" by (rule digits_set) simp_all
  then show ?thesis using digit_char_image16 by (rule order_trans)
qed

lemma digits_bin_hd: "0 < n \<Longrightarrow> hd (digits 2 n) = CHR ''1''"
proof -
  assume "0 < n"
  then have "hd (digits 2 n) \<in> digit_char ` {1..<2}" by (intro digits_hd) simp_all
  moreover have "{1..<2} = {1::nat}" by auto
  ultimately show ?thesis by (simp add: digit_char_def)
qed

lemma no_minus_bin: "CHR ''-'' \<notin> set (digits 2 n)"
  using digits_bin_chars[of n] by auto

lemma no_minus_hex: "CHR ''-'' \<notin> set (digits 16 n)"
proof
  assume "CHR ''-'' \<in> set (digits 16 n)"
  with digits_hex_chars[of n] have "CHR ''-'' \<in> set ''0123456789abcdef''" by (rule subsetD)
  then show False by simp
qed

lemma printBinary_digits:
  assumes "LENGTH('l::len) \<le> 64"
  shows "printBinary p (num :: 'l word) s = printf (digits 2 (unat num)) s"
  by (simp only: printBinary_printf binary_text_digits[OF assms])

lemma base_consts: "THORLOG_HEX \<noteq> THORLOG_DEC" "THORLOG_BIN \<noteq> THORLOG_DEC" "THORLOG_BIN \<noteq> THORLOG_HEX"
  by (simp_all add: THORLOG_DEC_def THORLOG_HEX_def THORLOG_BIN_def)

lemma printSignedLong_hex: "printSignedLong p num THORLOG_HEX s = printf (digits 16 (unat num)) s"
  by (simp add: printSignedLong_def base_consts fmt_lx_def)

lemma printUnsignedLong_hex: "printUnsignedLong p num THORLOG_HEX s = printf (digits 16 (unat num)) s"
  by (simp add: printUnsignedLong_def base_consts fmt_lx_def)

lemma printSignedLong_bin: "printSignedLong p num THORLOG_BIN s = printBinary p num s"
  by (simp add: printSignedLong_def base_consts)

lemma printUnsignedLong_bin: "printUnsignedLong p num THORLOG_BIN s = printBinary p num s"
  by (simp add: printUnsignedLong_def base_consts)

lemma digits_ten_bin: "digits 2 10 = ''1010''"
  by (simp add: digits.simps digit_char_def)

lemma bin_scenarios:
  "printFormat (CHR ''b'') [VWord 10] Log = Some ([], printf ''1010'' Log)"
  "printFormat (CHR ''B'') [VWord 10] Log = Some ([], printf ''0b1010'' Log)"
  "printFormat (CHR ''b'') [VWord 0] Log = Some ([], printf ''0'' Log)"
  "printFormat (CHR ''B'') [VWord 0] Log = Some ([], printf ''0b0'' Log)"
  by (simp_all add: printFormat_def logOutput_call_Some print_str_printf print_uint_def
      printUnsignedLong_bin printBinary_digits digits_ten_bin digits_small fmt_s_def)


section \<open>The directive C\<close>

lemma sint_nonneg_unat:
  assumes "0 \<le> sint (c :: 'a::len word)"
  shows "sint c = int (unat c)"
proof -
  have "sint c < 2 ^ (LENGTH('a) - 1)" by (rule sint_lt)
  also have "(2::int) ^ (LENGTH('a) - 1) \<le> 2 ^ LENGTH('a)" by (intro power_increasing) simp_all
  finally have "sint c < 2 ^ LENGTH('a)" .
  with assms have "take_bit LENGTH('a) (sint c) = sint c" by (simp add: take_bit_int_eq_self)
  then have "uint c = sint c" by (simp only: uint_sint)
  then show ?thesis by simp
qed

lemma printFormat_C:
  assumes "m_logOutput (s :: ('l::len, 'e) state) = Some p"
  shows "printFormat (CHR ''C'') (VWord v # args) s =
     Some (args, printf
       (if 0x20 \<le> sint (ucast v :: c_int) \<and> sint (ucast v :: c_int) < 0x7F
        then [to_char (ucast v)]
        else ''0x'' @ (if sint (ucast v :: c_int) < 0x10 then ''0'' else [])
               @ digits 16 (unat (ucast (ucast v :: c_int) :: 'l word))) s)"
  using assms
  by (simp add: printFormat_def logOutput_call_Some pad_step sink_printf ulong_text_def
      fmt_lx_def base_consts fmt_s_def)

lemma hex2:
  assumes "n < 256"
  shows "(if n < 16 then ''0'' else []) @ digits 16 n = fixed_digits 16 2 n"
proof -
  have c1: "n < 16 \<longleftrightarrow> length (digits 16 n) \<le> 1" using digits_length_le[of 16 n 0] by simp
  have c2: "length (digits 16 n) \<le> 2" using digits_length_le[of 16 n 1] assms by (simp add: numeral_2_eq_2)
  have c0: "1 \<le> length (digits 16 n)" using digits_nonempty[of 16 n] by (simp add: Suc_le_eq)
  have fx: "fixed_digits 16 2 n = replicate (2 - length (digits 16 n)) (CHR ''0'') @ digits 16 n"
    using fixed_digits_pad[of 16 n 1] assms by (simp add: numeral_2_eq_2)
  from c0 c2 consider "length (digits 16 n) = 1" | "length (digits 16 n) = 2" by linarith
  then show ?thesis by cases (simp_all add: c1 fx)
qed


lemma to_char_A: "to_char 0x41 = CHR ''A''"
proof -
  have "(65::nat) = of_char (CHR ''A'')" by simp
  then have "char_of (65::nat) = CHR ''A''" by (simp only: char_of_char)
  then show ?thesis by (simp add: to_char_def)
qed

lemma digits_hex_values:
  "digits 16 7 = ''7''" "digits 16 256 = ''100''" "digits 16 4294967295 = ''ffffffff''"
  by (simp_all add: digits.simps digit_char_def)

lemma C_run_bell: "printFormat (CHR ''C'') [VWord 7] Log = Some ([], printf ''0x07'' Log)"
  by (simp add: printFormat_C digits_hex_values)

lemma C_run_A: "printFormat (CHR ''C'') [VWord 0x41] Log = Some ([], printf ''A'' Log)"
  by (simp add: printFormat_C to_char_A)

lemma C_run_256: "printFormat (CHR ''C'') [VWord 0x100] Log = Some ([], printf ''0x100'' Log)"
  by (simp add: printFormat_C digits_hex_values)

lemma unat_minus_one32: "unat (- 1 :: 32 word) = 4294967295"
  by (simp add: unsigned_minus_1_eq_mask mask_eq_exp_minus_1)


lemma digits_bin_ten32: "digits 2 (unat (10 :: 32 word)) = ''1010''"
  by (simp add: digits_ten_bin)

lemma digits_hex_minus_one32: "digits 16 (unat (- 1 :: 32 word)) = ''ffffffff''"
  by (simp add: unat_minus_one32 digits_hex_values)


section \<open>The threshold is clamped\<close>

text \<open>
  C4. For every \<^verbatim>\<open>int\<close> \<open>v\<close>, \<^verbatim>\<open>setLevel(v)\<close> and \<^verbatim>\<open>begin(v, sink, showLevel)\<close> store
  \<open>v\<close> clamped into the range from SILENT (0) to VERBOSE (6): 0 for a negative \<open>v\<close>,
  6 for a \<open>v\<close> above 6, \<open>v\<close> itself otherwise; \<^verbatim>\<open>getLevel()\<close> then returns that value.
\<close>

theorem C4_threshold_clamped:
  "getLevel (setLevel v s) = (if sint v < 0 then 0 else if 6 < sint v then 6 else v) \<and>
   getLevel (ThorLogging_begin v output showLevel s) = (if sint v < 0 then 0 else if 6 < sint v then 6 else v) \<and>
   0 \<le> sint (getLevel (setLevel v s)) \<and> sint (getLevel (setLevel v s)) \<le> 6 \<and>
   0 \<le> sint (getLevel (ThorLogging_begin v output showLevel s)) \<and>
   sint (getLevel (ThorLogging_begin v output showLevel s)) \<le> 6"
  by (simp add: getLevel_def setLevel_def ThorLogging_begin_def thorlog_constrain_def
      THORLOG_LEVEL_SILENT_def THORLOG_LEVEL_VERBOSE_def)

theorem C4_threshold_clamped_witness:
  "getLevel (setLevel (- 3) (ThorLogging () :: (32, unit) state)) = 0 \<and>
   getLevel (setLevel 9 (ThorLogging () :: (32, unit) state)) = 6 \<and>
   getLevel (setLevel 4 (ThorLogging () :: (32, unit) state)) = 4 \<and>
   getLevel (ThorLogging_begin (- 3) (Some EspIdfPrint) True (ThorLogging () :: (32, unit) state)) = 0 \<and>
   getLevel (ThorLogging_begin 9 (Some EspIdfPrint) True (ThorLogging () :: (32, unit) state)) = 6 \<and>
   getLevel (ThorLogging_begin 4 (Some EspIdfPrint) True (ThorLogging () :: (32, unit) state)) = 4"
  using C4_threshold_clamped [of "- 3" "ThorLogging () :: (32, unit) state" "Some EspIdfPrint" True]
    C4_threshold_clamped [of 9 "ThorLogging () :: (32, unit) state" "Some EspIdfPrint" True]
    C4_threshold_clamped [of 4 "ThorLogging () :: (32, unit) state" "Some EspIdfPrint" True]
  by simp


section \<open>Logging calls and the logger's fields\<close>




section \<open>The terminator of the newline variants\<close>

text \<open>
  C7. For every emitted call, the state on return is the state the suffix hook left
  (the state after the body when no suffix hook is set), followed for a newline
  variant by the write of exactly one carriage return, \<open>0x0D\<close>, and by nothing for
  the other variants, whatever the hooks do. The call returns when a sink is
  installed, the arguments fit the format, and no hook is set or no hook takes the
  sink away.
\<close>

theorem C7_terminator:
  assumes "sint (severity ep) \<le> sint (m_level s)"
  shows "(\<forall>s'. log_call hooks ep msg args s = Some s' \<longrightarrow>
           (\<exists>rest s3.
              print msg args
                (if m_showLevel (invoke hooks (m_prefix s) (severity ep) s)
                 then printf (''FEWITV'' ! nat (sint (severity ep) - 1) # '': '')
                        (invoke hooks (m_prefix s) (severity ep) s)
                 else invoke hooks (m_prefix s) (severity ep) s) = Some (rest, s3) \<and>
              s' = (if newline_variant ep
                    then printf [CHR 0x0D] (invoke hooks (m_suffix s3) (severity ep) s3)
                    else invoke hooks (m_suffix s3) (severity ep) s3) \<and>
              stdout s' = stdout (invoke hooks (m_suffix s3) (severity ep) s3)
                            @ (if newline_variant ep then [CHR 0x0D] else []))) \<and>
         (m_logOutput s \<noteq> None \<and> print msg args s \<noteq> None \<and>
          ((m_prefix s = None \<and> m_suffix s = None) \<or>
           (\<forall>f p l u. m_logOutput u \<noteq> None \<longrightarrow> m_logOutput (snd (hooks f p l u)) \<noteq> None)) \<longrightarrow>
           (\<exists>s'. log_call hooks ep msg args s = Some s'))"
proof (intro conjI allI impI)
  fix s'
  assume "log_call hooks ep msg args s = Some s'"
  then have "printLevel hooks (severity ep) (newline_variant ep) msg args s = Some s'"
    by (simp add: log_call_printLevel)
  from printLevel_entry[OF assms _ _ this] severity_range[of ep]
  show "\<exists>rest s3.
      print msg args
        (if m_showLevel (invoke hooks (m_prefix s) (severity ep) s)
         then printf (''FEWITV'' ! nat (sint (severity ep) - 1) # '': '')
                (invoke hooks (m_prefix s) (severity ep) s)
         else invoke hooks (m_prefix s) (severity ep) s) = Some (rest, s3) \<and>
      s' = (if newline_variant ep
            then printf [CHR 0x0D] (invoke hooks (m_suffix s3) (severity ep) s3)
            else invoke hooks (m_suffix s3) (severity ep) s3) \<and>
      stdout s' = stdout (invoke hooks (m_suffix s3) (severity ep) s3)
                    @ (if newline_variant ep then [CHR 0x0D] else [])"
    by auto
next
  assume "m_logOutput s \<noteq> None \<and> print msg args s \<noteq> None \<and>
          ((m_prefix s = None \<and> m_suffix s = None) \<or>
           (\<forall>f p l u. m_logOutput u \<noteq> None \<longrightarrow> m_logOutput (snd (hooks f p l u)) \<noteq> None))"
  then show "\<exists>s'. log_call hooks ep msg args s = Some s'" by (rule log_call_returns)
qed

theorem C7_terminator_witness:
  "sint (severity Infoln) \<le> sint (m_level (setSuffix 0 Log)) \<and>
   newline_variant Infoln \<and> \<not> newline_variant Info \<and>
   log_call (\<lambda>f p l u. (''!'', u)) Infoln ''x'' [] (setSuffix 0 Log)
     = Some (printf (''I: x!'' @ [CHR 0x0D]) (setSuffix 0 Log)) \<and>
   log_call (\<lambda>f p l u. (''!'', u)) Info ''x'' [] (setSuffix 0 Log)
     = Some (printf ''I: x!'' (setSuffix 0 Log))"
proof -
  let ?h = "(\<lambda>f p l u. (''!'', u)) :: (32, unit) hook_table"
  let ?s = "setSuffix 0 Log"
  have gate: "sint (severity Infoln) \<le> sint (m_level ?s)"
    by (simp add: level_defs)
  have gate': "sint (severity Info) \<le> sint (m_level ?s)"
    by (simp add: level_defs)
  have run: "log_call ?h Infoln ''x'' [] ?s = Some (printf (''I: x!'' @ [CHR 0x0D]) ?s)"
    by (simp add: infoln_def run_defs printf_def setSuffix_def)
  have run': "log_call ?h Info ''x'' [] ?s = Some (printf ''I: x!'' ?s)"
    by (simp add: info_def run_defs printf_def setSuffix_def)
  from C7_terminator[OF gate, of ?h "''x''" "[]"] C7_terminator[OF gate', of ?h "''x''" "[]"]
    gate run run' show ?thesis
    by simp
qed

section \<open>The level tag\<close>

text \<open>
  C10. Each of the fourteen entry points passes a severity from 1 to 6, so the index
  \<open>level - 1\<close> into the table \<^verbatim>\<open>"FEWITV"\<close> lies between 0 and 5 and the lookup stays
  inside the table, whatever the hooks do; an emitted call with showLevel set (the
  flag is read when the prefix hook has returned) writes, right after what the prefix
  hook wrote, the character of the table at that index and \<^verbatim>\<open>": "\<close>. Level 4 gives
  \<open>I\<close> for info and for notice.
\<close>

theorem C10_tag_lookup:
  "1 \<le> sint (severity ep) \<and> sint (severity ep) \<le> 6 \<and>
   0 \<le> sint (severity ep) - 1 \<and> sint (severity ep) - 1 \<le> 5 \<and>
   levels_at (sint (severity ep) - 1) = Some (''FEWITV'' ! nat (sint (severity ep) - 1)) \<and>
   (sint (severity ep) \<le> sint (m_level s) \<and>
    m_showLevel (invoke hooks (m_prefix s) (severity ep) s) \<and>
    log_call hooks ep msg args s = Some s' \<longrightarrow>
      (\<exists>body. stdout s' = stdout (invoke hooks (m_prefix s) (severity ep) s)
                 @ (''FEWITV'' ! nat (sint (severity ep) - 1)) # '': '' @ body)) \<and>
   (m_logOutput s \<noteq> None \<and> print msg args s \<noteq> None \<and>
    ((m_prefix s = None \<and> m_suffix s = None) \<or>
     (\<forall>f p l u. m_logOutput u \<noteq> None \<longrightarrow> m_logOutput (snd (hooks f p l u)) \<noteq> None)) \<longrightarrow>
      (\<exists>r. log_call hooks ep msg args s = Some r)) \<and>
   levels_at (sint (severity Info) - 1) = Some (CHR ''I'') \<and>
   levels_at (sint (severity Notice) - 1) = Some (CHR ''I'')"
proof -
  note ret = log_call_returns[of s msg args hooks ep]
  note rng = severity_range[of ep]
  have tag: "levels_at (sint (severity ep) - 1) = Some (''FEWITV'' ! nat (sint (severity ep) - 1))"
    using rng by (simp add: levels_at_level)
  have call: "\<exists>body. stdout s' = stdout (invoke hooks (m_prefix s) (severity ep) s)
                 @ (''FEWITV'' ! nat (sint (severity ep) - 1)) # '': '' @ body"
    if gate: "sint (severity ep) \<le> sint (m_level s)"
      and sl: "m_showLevel (invoke hooks (m_prefix s) (severity ep) s)"
      and run: "log_call hooks ep msg args s = Some s'"
  proof -
    from run have "printLevel hooks (severity ep) (newline_variant ep) msg args s = Some s'"
      by (simp add: log_call_printLevel)
    from printLevel_entry[OF gate _ _ this] rng sl obtain rest s3 where
      body: "print msg args (printf (''FEWITV'' ! nat (sint (severity ep) - 1) # '': '')
                (invoke hooks (m_prefix s) (severity ep) s)) = Some (rest, s3)" and
      fin: "s' = (if newline_variant ep
            then printf [CHR 0x0D] (invoke hooks (m_suffix s3) (severity ep) s3)
            else invoke hooks (m_suffix s3) (severity ep) s3)"
      by auto
    from body obtain t where "s3 = printf t (printf (''FEWITV'' ! nat (sint (severity ep) - 1) # '': '')
                (invoke hooks (m_prefix s) (severity ep) s))"
      using print_append by blast
    moreover obtain t' where "stdout (invoke hooks (m_suffix s3) (severity ep) s3) = stdout s3 @ t'"
      using invoke_append by blast
    ultimately show ?thesis using fin by (cases "newline_variant ep") simp_all
  qed
  have "levels_at (sint (severity Info) - 1) = Some (CHR ''I'')"
    "levels_at (sint (severity Notice) - 1) = Some (CHR ''I'')"
    by (simp_all add: levels_at_def levels_def THORLOG_LEVEL_INFO_def THORLOG_LEVEL_NOTICE_def)
  with rng tag call ret show ?thesis by simp
qed

theorem C10_tag_lookup_witness:
  "sint (severity Warningln) \<le> sint (m_level (setPrefix 0 Log)) \<and>
   m_showLevel (invoke (\<lambda>f p l u. (''> '', u)) (m_prefix (setPrefix 0 Log)) (severity Warningln)
                  (setPrefix 0 Log)) \<and>
   log_call (\<lambda>f p l u. (''> '', u)) Warningln ''x'' [] (setPrefix 0 Log)
     = Some (printf (''> W: x'' @ [CHR 0x0D]) (setPrefix 0 Log)) \<and>
   levels_at (sint (severity Warningln) - 1) = Some (CHR ''W'') \<and>
   (\<exists>body. stdout (printf (''> W: x'' @ [CHR 0x0D]) (setPrefix 0 Log)) = ''> '' @ CHR ''W'' # '': '' @ body)"
proof -
  let ?h = "(\<lambda>f p l u. (''> '', u)) :: (32, unit) hook_table"
  let ?s = "setPrefix 0 Log"
  have gate: "sint (severity Warningln) \<le> sint (m_level ?s)"
    by (simp add: level_defs)
  have sl: "m_showLevel (invoke ?h (m_prefix ?s) (severity Warningln) ?s)"
    by (simp add: invoke.simps)
  have run: "log_call ?h Warningln ''x'' [] ?s = Some (printf (''> W: x'' @ [CHR 0x0D]) ?s)"
    by (simp add: warningln_def run_defs printf_def setPrefix_def)
  from C10_tag_lookup[of Warningln ?s ?h "''x''" "[]" "printf (''> W: x'' @ [CHR 0x0D]) ?s"]
    gate sl run
  show ?thesis by (simp add: level_defs invoke.simps)
qed

section \<open>The severity gate\<close>

text \<open>
  C1, as amended. For every severity \<open>L\<close> from FATAL (1) to VERBOSE (6) and every
  threshold \<open>T\<close> from SILENT (0) to VERBOSE (6): when \<open>L > T\<close> the call is a complete
  no-op, it returns the state it was given, so nothing is written, no hook runs, and
  neither tag nor terminator appears. When \<open>L \<le> T\<close> the call writes, in this order,
  the text of the prefix hook, the level tag and \<^verbatim>\<open>": "\<close> if showLevel is set when the
  prefix hook has returned, the formatted body, the text of the suffix hook, and
  one carriage return for a newline variant; so it writes to the sink iff one of
  these five parts is not empty. In particular a call whose format begins with an
  ordinary character (neither \<open>%\<close> nor NUL), a call that shows the level tag, and a
  newline variant each write to the sink iff \<open>L \<le> T\<close>. The call returns when a
  sink is installed, the arguments fit the format, and no hook is set or no hook
  takes the sink away.
\<close>

theorem C1_gate:
  assumes "1 \<le> sint L" "sint L \<le> 6" and "0 \<le> sint (m_level s)" "sint (m_level s) \<le> 6"
  shows "(sint (m_level s) < sint L \<longrightarrow> printLevel hooks L cr msg args s = Some s) \<and>
         (\<forall>s'. printLevel hooks L cr msg args s = Some s' \<and> sint L \<le> sint (m_level s) \<longrightarrow>
            (\<exists>pre body suf rest s3.
               stdout (invoke hooks (m_prefix s) L s) = stdout s @ pre \<and>
               print msg args
                 (if m_showLevel (invoke hooks (m_prefix s) L s)
                  then printf (''FEWITV'' ! nat (sint L - 1) # '': '') (invoke hooks (m_prefix s) L s)
                  else invoke hooks (m_prefix s) L s) = Some (rest, s3) \<and>
               stdout s3 = stdout (invoke hooks (m_prefix s) L s)
                   @ (if m_showLevel (invoke hooks (m_prefix s) L s)
                      then ''FEWITV'' ! nat (sint L - 1) # '': '' else []) @ body \<and>
               stdout (invoke hooks (m_suffix s3) L s3) = stdout s3 @ suf \<and>
               stdout s' = stdout s @ pre
                   @ (if m_showLevel (invoke hooks (m_prefix s) L s)
                      then ''FEWITV'' ! nat (sint L - 1) # '': '' else [])
                   @ body @ suf @ (if cr then [CHR 0x0D] else []) \<and>
               (stdout s' \<noteq> stdout s \<longleftrightarrow>
                  pre \<noteq> [] \<or> m_showLevel (invoke hooks (m_prefix s) L s) \<or> body \<noteq> [] \<or>
                  suf \<noteq> [] \<or> cr))) \<and>
         (\<forall>s'. printLevel hooks L cr msg args s = Some s' \<and>
               (m_showLevel (invoke hooks (m_prefix s) L s) \<or> cr \<or>
                (\<exists>c m. msg = c # m \<and> c \<noteq> CHR ''%'' \<and> c \<noteq> CHR 0x00)) \<longrightarrow>
               (stdout s' \<noteq> stdout s \<longleftrightarrow> sint L \<le> sint (m_level s))) \<and>
         (m_logOutput s \<noteq> None \<and> print msg args s \<noteq> None \<and>
          ((m_prefix s = None \<and> m_suffix s = None) \<or>
           (\<forall>f p l u. m_logOutput u \<noteq> None \<longrightarrow> m_logOutput (snd (hooks f p l u)) \<noteq> None)) \<longrightarrow>
            (\<exists>s'. printLevel hooks L cr msg args s = Some s'))"
proof -
  let ?s1 = "invoke hooks (m_prefix s) L s"
  let ?tag = "if m_showLevel ?s1 then ''FEWITV'' ! nat (sint L - 1) # '': '' else []"
  let ?s2 = "if m_showLevel ?s1 then printf (''FEWITV'' ! nat (sint L - 1) # '': '') ?s1 else ?s1"
  let ?nl = "if cr then [CHR 0x0D] else []"
  have gated: "printLevel hooks L cr msg args s = Some s" if "sint (m_level s) < sint L"
    using that by (rule printLevel_gated)
  have parts: "\<exists>pre body suf rest s3.
      stdout ?s1 = stdout s @ pre \<and> print msg args ?s2 = Some (rest, s3) \<and>
      stdout s3 = stdout ?s1 @ ?tag @ body \<and>
      stdout (invoke hooks (m_suffix s3) L s3) = stdout s3 @ suf \<and>
      stdout s' = stdout s @ pre @ ?tag @ body @ suf @ ?nl \<and>
      (stdout s' \<noteq> stdout s \<longleftrightarrow> pre \<noteq> [] \<or> m_showLevel ?s1 \<or> body \<noteq> [] \<or> suf \<noteq> [] \<or> cr)"
    if h: "printLevel hooks L cr msg args s = Some s' \<and> sint L \<le> sint (m_level s)" for s'
  proof -
    from h have run: "printLevel hooks L cr msg args s = Some s'"
      and gate: "sint L \<le> sint (m_level s)" by simp_all
    from printLevel_output[OF gate assms(1,2) run] obtain pre body suf rest s3 where
      p: "stdout ?s1 = stdout s @ pre" and b: "print msg args ?s2 = Some (rest, s3)" and
      o3: "stdout s3 = stdout ?s1 @ ?tag @ body" and
      su: "stdout (invoke hooks (m_suffix s3) L s3) = stdout s3 @ suf" and
      out: "stdout s' = stdout s @ pre @ ?tag @ body @ suf @ ?nl"
      by blast
    from out have "stdout s' \<noteq> stdout s \<longleftrightarrow>
        pre \<noteq> [] \<or> m_showLevel ?s1 \<or> body \<noteq> [] \<or> suf \<noteq> [] \<or> cr"
      by simp
    with p b o3 su out show ?thesis by blast
  qed
  have iff: "stdout s' \<noteq> stdout s \<longleftrightarrow> sint L \<le> sint (m_level s)"
    if h: "printLevel hooks L cr msg args s = Some s' \<and>
           (m_showLevel ?s1 \<or> cr \<or> (\<exists>c m. msg = c # m \<and> c \<noteq> CHR ''%'' \<and> c \<noteq> CHR 0x00))" for s'
  proof (cases "sint L \<le> sint (m_level s)")
    case False
    then have "printLevel hooks L cr msg args s = Some s" by (simp add: gated)
    with h False show ?thesis by simp
  next
    case True
    from h have run: "printLevel hooks L cr msg args s = Some s'" by simp
    from printLevel_output[OF True assms(1,2) run] obtain pre body suf rest s3 where
      b: "print msg args ?s2 = Some (rest, s3)" and
      o3: "stdout s3 = stdout ?s1 @ ?tag @ body" and
      out: "stdout s' = stdout s @ pre @ ?tag @ body @ suf @ ?nl"
      by blast
    have "m_showLevel ?s1 \<or> cr \<or> body \<noteq> []"
    proof (cases "m_showLevel ?s1 \<or> cr")
      case True
      then show ?thesis by blast
    next
      case False
      with h obtain c m where msg: "msg = c # m" "c \<noteq> CHR ''%''" "c \<noteq> CHR 0x00" by blast
      from False o3 have "stdout s3 = stdout ?s2 @ body" by simp
      from print_plain_writes[OF msg(2,3) b[unfolded msg(1)] this] show ?thesis by simp
    qed
    with out True show ?thesis by auto
  qed
  have ret: "\<exists>s'. printLevel hooks L cr msg args s = Some s'"
    if "m_logOutput s \<noteq> None \<and> print msg args s \<noteq> None \<and>
          ((m_prefix s = None \<and> m_suffix s = None) \<or>
           (\<forall>f p l u. m_logOutput u \<noteq> None \<longrightarrow> m_logOutput (snd (hooks f p l u)) \<noteq> None))"
    using that assms(1,2) by (simp add: printLevel_returns)
  from gated parts iff ret show ?thesis by blast
qed

theorem C1_gate_witness:
  "printLevel (\<lambda>f p l u. ([], u)) THORLOG_LEVEL_INFO False ''x'' []
       (setShowLevel False (setLevel THORLOG_LEVEL_WARNING Log))
     = Some (setShowLevel False (setLevel THORLOG_LEVEL_WARNING Log)) \<and>
   printLevel (\<lambda>f p l u. ([], u)) THORLOG_LEVEL_ERROR False ''x'' []
       (setShowLevel False (setLevel THORLOG_LEVEL_WARNING Log))
     = Some (printf ''x'' (setShowLevel False (setLevel THORLOG_LEVEL_WARNING Log))) \<and>
   stdout (printf ''x'' (setShowLevel False (setLevel THORLOG_LEVEL_WARNING Log)))
     \<noteq> stdout (setShowLevel False (setLevel THORLOG_LEVEL_WARNING Log)) \<and>
   printLevel (\<lambda>f p l u. ([], u)) THORLOG_LEVEL_ERROR True ''x'' [] (setLevel THORLOG_LEVEL_WARNING Log)
     = Some (printf (''E: x'' @ [CHR 0x0D]) (setLevel THORLOG_LEVEL_WARNING Log))"
proof -
  let ?h = "(\<lambda>f p l u. ([], u)) :: (32, unit) hook_table"
  let ?s = "setShowLevel False (setLevel THORLOG_LEVEL_WARNING Log)"
  let ?u = "setLevel THORLOG_LEVEL_WARNING Log"
  have run: "printLevel ?h THORLOG_LEVEL_ERROR False ''x'' [] ?s = Some (printf ''x'' ?s)"
    by (simp add: run_defs)
  have run': "printLevel ?h THORLOG_LEVEL_ERROR True ''x'' [] ?u = Some (printf (''E: x'' @ [CHR 0x0D]) ?u)"
    by (simp add: run_defs)
  from C1_gate[of THORLOG_LEVEL_INFO ?s ?h False "''x''" "[]"]
    C1_gate[of THORLOG_LEVEL_ERROR ?s ?h False "''x''" "[]"]
    C1_gate[of THORLOG_LEVEL_ERROR ?u ?h True "''x''" "[]"] run run'
  show ?thesis by (simp add: level_defs thorlog_constrain_def)
qed

text \<open>
  The claim as first stated fails: with showLevel off and no hook set, \<^verbatim>\<open>info("")\<close>
  passes the gate (4 \<open>\<le>\<close> 6) and returns the state unchanged, having written nothing:
  all five parts are empty.
\<close>

theorem C1_gate_counterexample:
  "sint THORLOG_LEVEL_INFO \<le> sint (getLevel (setShowLevel False Log)) \<and>
   info (\<lambda>f p l u. ([], u)) [] [] (setShowLevel False Log) = Some (setShowLevel False Log)"
  by (simp add: info_def getLevel_def run_defs)

section \<open>The format scan\<close>

text \<open>
  C8. A lone \<open>%\<close> at the end of the format, after a prefix made of whole directives
  and plain characters, is consumed without output and without reading an argument,
  and ends the scan: the call does exactly what it does on the prefix alone, and hands
  back the same remaining arguments.
\<close>

theorem C8_trailing_percent:
  assumes "whole_directives pre"
  shows "print (pre @ ''%'') args s = print pre args s"
  using assms
proof (induction pre arbitrary: args s rule: whole_directives.induct)
  case 1
  show ?case by simp
next
  case (2 c cs)
  show ?case
  proof (cases "c = CHR ''%''")
    case True
    with "2.prems" obtain f cs1 where cs: "cs = f # cs1" and f: "f \<noteq> CHR 0x00"
      and w: "whole_directives cs1"
      by (auto split: list.splits)
    have "(\<lambda>(a, u). print (cs1 @ ''%'') a u) = (\<lambda>(a, u). print cs1 a (u :: ('a, 'b) state))"
      by (simp add: fun_eq_iff "2.IH"(1)[OF True cs w])
    with True cs f show ?thesis by simp
  next
    case False
    with "2.prems" have w: "whole_directives cs" and nz: "c \<noteq> CHR 0x00" by auto
    have "print (cs @ ''%'') args = (print cs args :: ('a, 'b) state \<Rightarrow> _)"
      by (simp add: fun_eq_iff "2.IH"(2)[OF False w])
    with False nz show ?thesis by simp
  qed
qed

theorem C8_trailing_percent_witness:
  "whole_directives ''a%d'' \<and>
   print ''a%d%'' [VWord 5, VWord 7] Log = print ''a%d'' [VWord 5, VWord 7] Log \<and>
   print ''a%d%'' [VWord 5, VWord 7] Log = Some ([VWord 7], printf ''a5'' Log)"
proof -
  have w: "whole_directives ''a%d''" by simp
  have run: "print ''a%d'' [VWord 5, VWord 7] Log = Some ([VWord 7], printf ''a5'' Log)"
    by (simp add: run_defs printFormat_def sink_printf long_text_def fmt_ld_def digits_small digit_char_def THORLOG_DEC_def THORLOG_HEX_def THORLOG_BIN_def)
  from C8_trailing_percent[OF w, of "[VWord 5, VWord 7]" Log] w run show ?thesis by simp
qed

text \<open>
  C2, as amended. For every character \<open>c\<close> that follows a \<open>%\<close> and is not one of the
  recognized specifiers (\<open>%\<close>, s, c, C, d, i, l, u, x, X, b, B, t, T, D, F, p), the
  interpreter writes nothing to the sink for it and consumes no variadic argument;
  the scan goes on with the character after \<open>c\<close>.
\<close>

theorem C2_unrecognized:
  assumes "c \<notin> set ''%scCdiluxXbBtTDFp''"
  shows "printFormat c args s = Some (args, s) \<and>
         (c \<noteq> CHR 0x00 \<longrightarrow> print (CHR ''%'' # c # rest) args s = print rest args s)"
  using assms by (simp add: printFormat_other)

theorem C2_unrecognized_witness:
  "CHR ''z'' \<notin> set ''%scCdiluxXbBtTDFp'' \<and>
   printFormat (CHR ''z'') [VWord 5] Log = Some ([VWord 5], Log) \<and>
   print ''a%zb'' [VWord 5] Log = Some ([VWord 5], printf ''ab'' Log)"
proof -
  have z: "CHR ''z'' \<notin> set ''%scCdiluxXbBtTDFp''" by simp
  have run: "print ''ab'' [VWord 5] Log = Some ([VWord 5], printf ''ab'' Log)"
    by (simp add: run_defs)
  have run': "print ''a%zb'' [VWord 5] Log = Some ([VWord 5], printf ''ab'' Log)"
    by (simp add: run_defs printFormat_other)
  from C2_unrecognized[OF z, of "[VWord 5]" Log "''b''"] z run' show ?thesis
    by simp
qed

text \<open>
  The claim as first stated fails: \<^verbatim>\<open>printFormat\<close> has no final \<^verbatim>\<open>else\<close>, so the
  character after \<open>%\<close> is dropped, not forwarded. For \<^verbatim>\<open>%z\<close> the sink receives
  nothing where the claim expects \<open>z\<close>.
\<close>

theorem C2_unrecognized_counterexample:
  "map_option (stdout \<circ> snd) (printFormat (CHR ''z'') ([] :: 32 va_list) Log) = Some [] \<and>
   map_option (stdout \<circ> snd) (printFormat (CHR ''z'') ([] :: 32 va_list) Log) \<noteq> Some ''z''"
  by (simp add: printFormat_def)

section \<open>Fixed-width hexadecimal\<close>

text \<open>
  C5. For every \<^verbatim>\<open>unsigned long\<close> argument \<open>x\<close> below \<open>2^32\<close>, on a platform whose
  \<^verbatim>\<open>long\<close> has at least 32 bits, the directive \<^verbatim>\<open>%X\<close> writes exactly 10 characters:
  \<^verbatim>\<open>0x\<close> and the 8 lowercase hexadecimal digits of \<open>x\<close>, zero-padded on the left. End to
  end, after \<^verbatim>\<open>begin(VERBOSE, sink)\<close> the call \<^verbatim>\<open>infoln("Hex: %X", 0xDEAD)\<close> sends
  \<^verbatim>\<open>I: Hex: 0x0000dead\<close> and a carriage return to the sink.
\<close>

theorem C5_hex_X:
  assumes "32 \<le> LENGTH('l::len)" and "unat (x :: 'l word) < 2 ^ 32"
    and "m_logOutput (s :: ('l, 'e) state) = Some p"
  shows "printFormat (CHR ''X'') (VWord x # args) s
           = Some (args, printf (''0x'' @ fixed_digits 16 8 (unat x)) s) \<and>
         length (''0x'' @ fixed_digits 16 8 (unat x)) = 10 \<and>
         set (fixed_digits 16 8 (unat x)) \<subseteq> set ''0123456789abcdef'' \<and>
         number_of 16 (fixed_digits 16 8 (unat x)) = unat x \<and>
         infoln hooks ''Hex: %X'' [VWord 0xDEAD] Log
           = Some (printf (''I: Hex: 0x0000dead'' @ [CHR 0x0D]) Log)"
proof (intro conjI)
  show "printFormat (CHR ''X'') (VWord x # args) s
           = Some (args, printf (''0x'' @ fixed_digits 16 8 (unat x)) s)"
    using assms by (rule printFormat_X_text)
  show "length (''0x'' @ fixed_digits 16 8 (unat x)) = 10" by simp
  show "set (fixed_digits 16 8 (unat x)) \<subseteq> set ''0123456789abcdef''"
    by (rule fixed_hex_chars)
  show "number_of 16 (fixed_digits 16 8 (unat x)) = unat x"
    using assms(2) by (rule number_of_fixed_hex8)
  show "infoln hooks ''Hex: %X'' [VWord 0xDEAD] Log
           = Some (printf (''I: Hex: 0x0000dead'' @ [CHR 0x0D]) Log)"
    by (rule hex_scenario)
qed

theorem C5_hex_X_witness:
  "32 \<le> LENGTH(64) \<and> unat (0xDEAD :: 64 word) < 2 ^ 32 \<and>
   m_logOutput (ThorLogging_begin THORLOG_LEVEL_VERBOSE (Some EspIdfPrint) True (ThorLogging ()) :: (64, unit) state)
     = Some EspIdfPrint \<and>
   printFormat (CHR ''X'') [VWord (0xDEAD :: 64 word)]
       (ThorLogging_begin THORLOG_LEVEL_VERBOSE (Some EspIdfPrint) True (ThorLogging ()) :: (64, unit) state)
     = Some ([], printf ''0x0000dead''
         (ThorLogging_begin THORLOG_LEVEL_VERBOSE (Some EspIdfPrint) True (ThorLogging ())))"
proof -
  let ?s = "ThorLogging_begin THORLOG_LEVEL_VERBOSE (Some EspIdfPrint) True (ThorLogging ()) :: (64, unit) state"
  have l: "32 \<le> LENGTH(64)" by simp
  have x: "unat (0xDEAD :: 64 word) < 2 ^ 32" by simp
  have s: "m_logOutput ?s = Some EspIdfPrint" by simp
  have "printFormat (CHR ''X'') [VWord (0xDEAD :: 64 word)] ?s
     = Some ([], printf (''0x'' @ fixed_digits 16 8 (unat (0xDEAD :: 64 word))) ?s)"
    using C5_hex_X[OF l x s, of "[]"] by (rule conjunct1)
  then have "printFormat (CHR ''X'') [VWord (0xDEAD :: 64 word)] ?s = Some ([], printf ''0x0000dead'' ?s)"
    by (simp only: dead64 append.simps)
  with l x s show ?thesis by (intro conjI)
qed

section \<open>Binary digits, and signed values in the bases 16 and 2\<close>

text \<open>
  C6. On a platform whose \<^verbatim>\<open>long\<close> has at most 64 bits, \<^verbatim>\<open>printBinary\<close> writes the
  binary digits of its unsigned argument, most significant first: a string of \<open>0\<close> and
  \<open>1\<close> that stands for the value, starts with \<open>1\<close> for a value other than zero, and
  is the single digit \<open>0\<close> for zero. A signed value printed in base 16 or 2 is written
  exactly as the unsigned value with the same bits, hence without a minus sign.
  \<^verbatim>\<open>%b\<close> on 10 gives \<^verbatim>\<open>1010\<close>, \<^verbatim>\<open>%B\<close> gives \<^verbatim>\<open>0b1010\<close>; on zero they give \<^verbatim>\<open>0\<close> and
  \<^verbatim>\<open>0b0\<close>.
\<close>

theorem C6_binary_and_signed:
  assumes "LENGTH('l::len) \<le> 64"
  shows "printBinary p (num :: 'l word) s = printf (digits 2 (unat num)) s \<and>
     set (digits 2 (unat num)) \<subseteq> {CHR ''0'', CHR ''1''} \<and>
     number_of 2 (digits 2 (unat num)) = unat num \<and>
     (num \<noteq> 0 \<longrightarrow> hd (digits 2 (unat num)) = CHR ''1'') \<and>
     (num = 0 \<longrightarrow> digits 2 (unat num) = ''0'') \<and>
     printSignedLong p num THORLOG_HEX s = printUnsignedLong p num THORLOG_HEX s \<and>
     printSignedLong p num THORLOG_BIN s = printUnsignedLong p num THORLOG_BIN s \<and>
     printSignedLong p num THORLOG_HEX s = printf (digits 16 (unat num)) s \<and>
     printSignedLong p num THORLOG_BIN s = printf (digits 2 (unat num)) s \<and>
     CHR ''-'' \<notin> set (digits 16 (unat num)) \<and> CHR ''-'' \<notin> set (digits 2 (unat num)) \<and>
     printFormat (CHR ''b'') [VWord 10] Log = Some ([], printf ''1010'' Log) \<and>
     printFormat (CHR ''B'') [VWord 10] Log = Some ([], printf ''0b1010'' Log) \<and>
     printFormat (CHR ''b'') [VWord 0] Log = Some ([], printf ''0'' Log) \<and>
     printFormat (CHR ''B'') [VWord 0] Log = Some ([], printf ''0b0'' Log)"
proof (intro conjI impI)
  show "printBinary p num s = printf (digits 2 (unat num)) s"
    using assms by (rule printBinary_digits)
  show "set (digits 2 (unat num)) \<subseteq> {CHR ''0'', CHR ''1''}" by (rule digits_bin_chars)
  show "number_of 2 (digits 2 (unat num)) = unat num" by (rule number_of_digits) simp_all
  show "hd (digits 2 (unat num)) = CHR ''1''" if "num \<noteq> 0"
  proof -
    from that have "unat num \<noteq> 0" by (simp only: unat_0_iff not_False_eq_True)
    then show ?thesis by (intro digits_bin_hd) simp
  qed
  show "digits 2 (unat num) = ''0''" if "num = 0"
    using that by (simp add: digits_small)
  show "printSignedLong p num THORLOG_HEX s = printUnsignedLong p num THORLOG_HEX s"
    by (simp only: printSignedLong_hex printUnsignedLong_hex)
  show "printSignedLong p num THORLOG_BIN s = printUnsignedLong p num THORLOG_BIN s"
    by (simp only: printSignedLong_bin printUnsignedLong_bin)
  show "printSignedLong p num THORLOG_HEX s = printf (digits 16 (unat num)) s"
    by (rule printSignedLong_hex)
  show "printSignedLong p num THORLOG_BIN s = printf (digits 2 (unat num)) s"
    by (simp only: printSignedLong_bin printBinary_digits[OF assms])
  show "CHR ''-'' \<notin> set (digits 16 (unat num))" by (rule no_minus_hex)
  show "CHR ''-'' \<notin> set (digits 2 (unat num))" by (rule no_minus_bin)
qed (rule bin_scenarios)+

theorem C6_binary_and_signed_witness:
  "LENGTH(32) \<le> 64 \<and> sint (- 1 :: 32 word) < 0 \<and> (10 :: 32 word) \<noteq> 0 \<and>
   printSignedLong EspIdfPrint (- 1 :: 32 word) THORLOG_HEX Log = printf ''ffffffff'' Log \<and>
   printSignedLong EspIdfPrint (10 :: 32 word) THORLOG_BIN Log = printf ''1010'' Log \<and>
   printBinary EspIdfPrint (10 :: 32 word) Log = printf ''1010'' Log \<and>
   hd ''1010'' = CHR ''1''"
proof -
  have l: "LENGTH(32) \<le> 64" by simp
  have a: "printSignedLong EspIdfPrint (- 1 :: 32 word) THORLOG_HEX Log
      = printf (digits 16 (unat (- 1 :: 32 word))) Log"
    using C6_binary_and_signed[OF l, of EspIdfPrint "- 1" Log] by blast
  have b: "printBinary EspIdfPrint (10 :: 32 word) Log = printf (digits 2 (unat (10 :: 32 word))) Log
      \<and> printSignedLong EspIdfPrint (10 :: 32 word) THORLOG_BIN Log = printf (digits 2 (unat (10 :: 32 word))) Log
      \<and> ((10 :: 32 word) \<noteq> 0 \<longrightarrow> hd (digits 2 (unat (10 :: 32 word))) = CHR ''1'')"
    using C6_binary_and_signed[OF l, of EspIdfPrint 10 Log] by blast
  from a b l show ?thesis
    by (simp only: digits_bin_ten32 digits_hex_minus_one32) simp
qed

section \<open>A character, or its code in hexadecimal\<close>

text \<open>
  C3, as amended. For every non-negative \<^verbatim>\<open>int\<close> argument \<open>c\<close> read by \<^verbatim>\<open>%C\<close>: if
  \<open>c\<close> lies in the printable range from \<open>0x20\<close> to \<open>0x7E\<close> the sink receives exactly the
  character \<open>c\<close>; otherwise it receives \<^verbatim>\<open>0x\<close> and the lowercase hexadecimal digits of
  the whole value \<open>c\<close>, padded to two digits: exactly two digits for \<open>c\<close> up to \<open>0xFF\<close>
  (\<open>0x07\<close> gives \<^verbatim>\<open>0x07\<close>), and more than two for a larger \<open>c\<close>.
\<close>

theorem C3_char_or_hex:
  assumes len: "32 \<le> LENGTH('l::len)" and sink: "m_logOutput (s :: ('l, 'e) state) = Some p"
    and c: "ucast (v :: 'l word) = (c :: c_int)" and nonneg: "0 \<le> sint c"
  shows "(0x20 \<le> sint c \<and> sint c \<le> 0x7E \<longrightarrow>
            printFormat (CHR ''C'') (VWord v # args) s = Some (args, printf [to_char c] s) \<and>
            of_char (to_char c) = unat c) \<and>
         (\<not> (0x20 \<le> sint c \<and> sint c \<le> 0x7E) \<and> sint c \<le> 0xFF \<longrightarrow>
            printFormat (CHR ''C'') (VWord v # args) s
              = Some (args, printf (''0x'' @ fixed_digits 16 2 (unat c)) s)) \<and>
         (0xFF < sint c \<longrightarrow>
            printFormat (CHR ''C'') (VWord v # args) s
              = Some (args, printf (''0x'' @ digits 16 (unat c)) s) \<and>
            2 < length (digits 16 (unat c)))"
proof -
  note s = sint_nonneg_unat[OF nonneg]
  note u = unat_ucast_int[OF len, of c]
  note pf = printFormat_C[OF sink, of v args, unfolded c u]
  have printable: "of_char (to_char c) = unat c" if "sint c \<le> 0x7E"
  proof -
    from that s have "unat c < 256" by linarith
    then show ?thesis by (simp add: to_char_def)
  qed
  have byte: "(if sint c < 0x10 then ''0'' else []) @ digits 16 (unat c) = fixed_digits 16 2 (unat c)"
    if "sint c \<le> 0xFF"
  proof -
    from that s have "unat c < 256" by linarith
    moreover from s have "sint c < 0x10 \<longleftrightarrow> unat c < 16" by linarith
    ultimately show ?thesis using hex2[of "unat c"] by (simp only:)
  qed
  have long: "2 < length (digits 16 (unat c))" if "0xFF < sint c"
  proof -
    from that s have "\<not> unat c < 256" by linarith
    with digits_length_le[of 16 "unat c" 1] show ?thesis by simp
  qed
  have pad: "(if sint c < 0x10 then ''0'' else []) = []" if "0xFF < sint c"
    using that by simp
  have p1: "0x20 \<le> sint c \<and> sint c < 0x7F \<longleftrightarrow> 0x20 \<le> sint c \<and> sint c \<le> 0x7E" by linarith
  show ?thesis
  proof (intro conjI impI)
    assume a: "0x20 \<le> sint c \<and> sint c \<le> 0x7E"
    with pf p1 show "printFormat (CHR ''C'') (VWord v # args) s = Some (args, printf [to_char c] s)"
      by simp
    from a show "of_char (to_char c) = unat c" by (intro printable) simp
  next
    assume a: "\<not> (0x20 \<le> sint c \<and> sint c \<le> 0x7E) \<and> sint c \<le> 0xFF"
    with p1 have np: "\<not> (0x20 \<le> sint c \<and> sint c < 0x7F)" by simp
    from a have "sint c \<le> 0xFF" by simp
    from pf np byte[OF this]
    show "printFormat (CHR ''C'') (VWord v # args) s
              = Some (args, printf (''0x'' @ fixed_digits 16 2 (unat c)) s)"
      by (simp only: if_False)
  next
    assume a: "0xFF < sint c"
    then have np: "\<not> (0x20 \<le> sint c \<and> sint c < 0x7F)" by simp
    from pf np pad[OF a]
    show "printFormat (CHR ''C'') (VWord v # args) s
              = Some (args, printf (''0x'' @ digits 16 (unat c)) s)"
      by (simp only: if_False append_Nil)
    from a show "2 < length (digits 16 (unat c))" by (rule long)
  qed
qed

theorem C3_char_or_hex_witness:
  "32 \<le> LENGTH(32) \<and> m_logOutput Log = Some EspIdfPrint \<and>
   0 \<le> sint (7 :: c_int) \<and> 0 \<le> sint (0x41 :: c_int) \<and> 0 \<le> sint (0x100 :: c_int) \<and>
   printFormat (CHR ''C'') [VWord 7] Log = Some ([], printf ''0x07'' Log) \<and>
   printFormat (CHR ''C'') [VWord 0x41] Log = Some ([], printf ''A'' Log) \<and>
   printFormat (CHR ''C'') [VWord 0x100] Log = Some ([], printf ''0x100'' Log)"
proof -
  have l: "32 \<le> LENGTH(32)" by simp
  have s: "m_logOutput Log = Some EspIdfPrint" by simp
  have c1: "ucast (7 :: 32 word) = (7 :: c_int)" by simp
  have c2: "ucast (0x41 :: 32 word) = (0x41 :: c_int)" by simp
  have c3: "ucast (0x100 :: 32 word) = (0x100 :: c_int)" by simp
  have n1: "0 \<le> sint (7 :: c_int)" by simp
  have n2: "0 \<le> sint (0x41 :: c_int)" by simp
  have n3: "0 \<le> sint (0x100 :: c_int)" by simp
  from C3_char_or_hex[OF l s c1 n1, of "[]"] C3_char_or_hex[OF l s c2 n2, of "[]"]
    C3_char_or_hex[OF l s c3 n3, of "[]"] l s C_run_bell C_run_A C_run_256
  show ?thesis by simp
qed


text \<open>
  The claim as first stated fails: the value is not narrowed to its low byte before it
  is written in hexadecimal. For \<open>c = 0x100\<close> the sink receives \<^verbatim>\<open>0x100\<close>, where the
  low byte would give \<^verbatim>\<open>0x00\<close>.
\<close>

theorem C3_char_or_hex_counterexample:
  "map_option (stdout \<circ> snd) (printFormat (CHR ''C'') [VWord 0x100] Log) = Some ''0x100'' \<and>
   map_option (stdout \<circ> snd) (printFormat (CHR ''C'') [VWord 0x100] Log) \<noteq> Some ''0x00''"
  by (simp add: C_run_256)


text \<open>
  A negative argument (a \<^verbatim>\<open>char\<close> above \<open>0x7F\<close> where \<^verbatim>\<open>char\<close> is signed, or \<^verbatim>\<open>EOF\<close>):
  the test \<^verbatim>\<open>c < 0x10\<close> that pads to two digits is signed, so \<open>-1\<close> is written with a
  pad zero before its eight digits.
\<close>

lemma C_run_minus_one: "printFormat (CHR ''C'') [VWord (- 1)] Log = Some ([], printf ''0x0ffffffff'' Log)"
  by (simp add: printFormat_C unat_minus_one32 digits_hex_values)

end
